theory Spec2Isabelle
  imports Complex_Main
begin

section \<open>Python values used by \<^verbatim>\<open>utils.py\<close>\<close>

text \<open>
  A Python \<^verbatim>\<open>str\<close> is modelled as a \<^typ>\<open>string\<close>; a \<^typ>\<open>char\<close> stands for a
  code point below 256. On these code points \<^verbatim>\<open>str.isspace\<close> holds for
  U+0009..U+000D, U+001C..U+0020, U+0085 and U+00A0, the class \<^verbatim>\<open>\d\<close> of \<^verbatim>\<open>re\<close>
  holds for \<^verbatim>\<open>0\<close>..\<^verbatim>\<open>9\<close> only, and \<^verbatim>\<open>str.lower\<close> moves \<^verbatim>\<open>A\<close>..\<^verbatim>\<open>Z\<close> and
  U+00C0..U+00DE (without U+00D7) up by 32.
\<close>

definition is_space :: "char \<Rightarrow> bool" where
  "is_space c =
     (let n = (of_char c :: nat)
      in (9 \<le> n \<and> n \<le> 13) \<or> (28 \<le> n \<and> n \<le> 32) \<or> n = 133 \<or> n = 160)"

definition is_digit :: "char \<Rightarrow> bool" where
  "is_digit c = (let n = (of_char c :: nat) in 48 \<le> n \<and> n \<le> 57)"

definition lower_char :: "char \<Rightarrow> char" where
  "lower_char c =
     (let n = (of_char c :: nat)
      in if (65 \<le> n \<and> n \<le> 90) \<or> (192 \<le> n \<and> n \<le> 222 \<and> n \<noteq> 215)
         then char_of (n + 32) else c)"

text \<open>\<^verbatim>\<open>s.strip()\<close> and \<^verbatim>\<open>s.lower()\<close>.\<close>

definition strip :: "string \<Rightarrow> string" where
  "strip s = rev (dropWhile is_space (rev (dropWhile is_space s)))"

definition lower :: "string \<Rightarrow> string" where
  "lower s = map lower_char s"

text \<open>
  The exceptions that the modelled code can raise. A function that may raise returns
  \<open>error + 'a\<close>, with \<open>Inl\<close> for the exception.
\<close>

datatype error = IndexError | ValueError | ZeroDivisionError | TypeError | AssertionError | OSError

text \<open>
  \<^verbatim>\<open>int(s)\<close> on a string: surrounding whitespace is ignored and the rest is read as a
  decimal numeral. Only unsigned digit strings are read here (the one call site passes the
  text of a time marker behind its \<^verbatim>\<open>t\<close>); every other text is a \<^verbatim>\<open>ValueError\<close>. The
  interpreter's configurable limit on the number of digits is not modelled.
\<close>

definition digit_val :: "char \<Rightarrow> int" where
  "digit_val c = int (of_char c) - 48"

definition decimal :: "string \<Rightarrow> int" where
  "decimal ds = foldl (\<lambda>acc c. 10 * acc + digit_val c) 0 ds"

definition py_int :: "string \<Rightarrow> error + int" where
  "py_int s =
     (let d = strip s
      in if d \<noteq> [] \<and> list_all is_digit d then Inr (decimal d) else Inl ValueError)"

text \<open>
  The cells of a projected row are strings, integers and the result of a true division.
  A Python \<^verbatim>\<open>float\<close> is modelled by the exact quotient, a rational number: the rounding of
  \<^verbatim>\<open>a / b\<close> to the nearest double is left out.
\<close>

datatype pyval = PStr string | PInt int | PFloat rat

definition py_truediv :: "int \<Rightarrow> int \<Rightarrow> error + pyval" where
  "py_truediv a b = (if b = 0 then Inl ZeroDivisionError else Inr (PFloat (of_int a / of_int b)))"

section \<open>Regular expressions of \<^verbatim>\<open>re\<close>, as backtracking matchers\<close>

text \<open>
  A pattern is a function from the text that is left to the list of ways to match a prefix
  of it, each with what it captured and the text left behind, in the order in which the
  backtracking matcher of \<^verbatim>\<open>re\<close> tries them. \<^verbatim>\<open>re.match\<close> returns the first way in
  which the whole pattern matches.
\<close>

type_synonym 'a re = "string \<Rightarrow> ('a \<times> string) list"

text \<open>A literal character.\<close>

definition re_lit :: "char \<Rightarrow> unit re" where
  "re_lit c r = (case r of [] \<Rightarrow> [] | x # r' \<Rightarrow> if x = c then [((), r')] else [])"

text \<open>\<^verbatim>\<open>[class]+\<close>, greedy: the longest run first, then every shorter one down to one character.\<close>

definition re_plus :: "(char \<Rightarrow> bool) \<Rightarrow> string re" where
  "re_plus P r = map (\<lambda>k. (take k r, drop k r)) (rev [1 ..< Suc (length (takeWhile P r))])"

text \<open>\<^verbatim>\<open>(p)?\<close>, greedy: first with \<open>p\<close>, then without it (the group is then \<^verbatim>\<open>None\<close>).\<close>

definition re_opt :: "'a re \<Rightarrow> 'a option re" where
  "re_opt p r = map (\<lambda>(x, r'). (Some x, r')) (p r) @ [(None, r)]"

text \<open>\<^verbatim>\<open>o([^c]+)c\<close> for an opening character \<open>o\<close> and a closing character \<open>c\<close>.\<close>

definition re_group :: "char \<Rightarrow> char \<Rightarrow> string re" where
  "re_group opn cls r =
     [(x, r3). (u, r1) \<leftarrow> re_lit opn r, (x, r2) \<leftarrow> re_plus (\<lambda>c. c \<noteq> cls) r1,
               (v, r3) \<leftarrow> re_lit cls r2]"

text \<open>
  \<^verbatim>\<open>$\<close> without \<^verbatim>\<open>re.MULTILINE\<close>: at the end of the text, and also just before a
  newline that is the last character of the text.
\<close>

definition re_dollar :: "string \<Rightarrow> bool" where
  "re_dollar r = (r = [] \<or> r = [CHR 0x0A])"

definition re_first :: "'a list \<Rightarrow> 'a option" where
  "re_first ms = (case ms of [] \<Rightarrow> None | m # _ \<Rightarrow> Some m)"

text \<open>\<^verbatim>\<open>^t\d+$\<close>, the shape of a time marker.\<close>

definition time_regex :: "string \<Rightarrow> string list" where
  "time_regex s =
     [ds. (u, r1) \<leftarrow> re_lit CHR ''t'' s, (ds, r2) \<leftarrow> re_plus is_digit r1, re_dollar r2]"

definition is_time_marker :: "string \<Rightarrow> bool" where
  "is_time_marker s = (time_regex s \<noteq> [])"

text \<open>
  The pattern of \<^verbatim>\<open>extract_features_from_action\<close>:
  \<^verbatim>\<open>^([^(<$1]+)?(?:\(([^)]+)\))?(?:<([^>]+)>)?(?:\$([^$]+)\$)?$\<close>.
  The result lists the four groups of every match.
\<close>

definition action_class :: "char \<Rightarrow> bool" where
  "action_class c = (c \<notin> set ''(<$1'')"

definition action_regex ::
  "string \<Rightarrow> (string option \<times> string option \<times> string option \<times> string option) list" where
  "action_regex s =
     [(a, sc, cf, ch).
        (a, r1) \<leftarrow> re_opt (re_plus action_class) s,
        (sc, r2) \<leftarrow> re_opt (re_group CHR ''('' CHR '')'') r1,
        (cf, r3) \<leftarrow> re_opt (re_group CHR ''<'' CHR ''>'') r2,
        (ch, r4) \<leftarrow> re_opt (re_group CHR ''$'' CHR ''$'') r3,
        re_dollar r4]"

section \<open>\<^verbatim>\<open>extract_features_from_action\<close>\<close>

text \<open>\<^verbatim>\<open>x.strip() if x else None\<close>, and \<^verbatim>\<open>x if x else None\<close>.\<close>

definition strip_if :: "string option \<Rightarrow> string option" where
  "strip_if g = (case g of None \<Rightarrow> None | Some x \<Rightarrow> if x = [] then None else Some (strip x))"

definition keep_if :: "string option \<Rightarrow> string option" where
  "keep_if g = (case g of None \<Rightarrow> None | Some x \<Rightarrow> if x = [] then None else Some x)"

type_synonym features = "string option \<times> string option \<times> string option \<times> string option"

definition extract_features_from_action :: "string \<Rightarrow> features" where
  "extract_features_from_action phrase =
     (case re_first (action_regex (strip phrase)) of
        None \<Rightarrow> (None, None, None, None)
      | Some (g1, g2, g3, g4) \<Rightarrow>
          (let action = strip_if g1;
               screen = strip_if g2;
               configuration = strip_if g3;
               chaine = map_option lower (strip_if g4)
           in ((case action of
                  None \<Rightarrow> None
                | Some a \<Rightarrow> if a \<noteq> [] \<and> \<not> is_time_marker a then Some a else None),
               keep_if screen, keep_if configuration, keep_if chaine)))"

section \<open>\<^verbatim>\<open>read_csv_file\<close>\<close>

text \<open>
  The file system is a parameter: \<open>fs path\<close> is the list of rows that \<^verbatim>\<open>csv.reader\<close>
  yields for the file at \<open>path\<close>, or \<open>None\<close> when \<^verbatim>\<open>open\<close> fails.
\<close>

type_synonym files = "string \<Rightarrow> string list list option"

definition read_csv_file :: "files \<Rightarrow> string \<Rightarrow> bool \<Rightarrow> error + string list list" where
  "read_csv_file fs file_path has_header =
     (case fs file_path of
        None \<Rightarrow> Inl OSError
      | Some rows \<Rightarrow>
          if has_header then
            (case rows of
               [] \<Rightarrow> Inl IndexError
             | header # dat \<Rightarrow> Inr ([header] @ dat))
          else Inr rows)"

section \<open>\<^verbatim>\<open>CSVDataProcessor\<close>\<close>

text \<open>
  The attributes of the object. An attribute that starts as \<^verbatim>\<open>None\<close> is an option.
  A Python \<^verbatim>\<open>set\<close> of strings is a list without repetition; its order stands for the
  order in which the interpreter iterates the set, which stays the same as long as the set
  is not written to. \<open>set_add\<close> is \<^verbatim>\<open>set.add\<close>.
\<close>

record CSVDataProcessor =
  train_data_csv_path :: string
  data :: "string list list option"
  is_training_data :: "bool option"
  headers :: "string list option"
  possible_actions_set :: "string list"
  possible_screens_set :: "string list"
  possible_configurations_set :: "string list"
  possible_chaines_set :: "string list"

definition set_add :: "string \<Rightarrow> string list \<Rightarrow> string list" where
  "set_add x xs = (if x \<in> set xs then xs else xs @ [x])"

text \<open>\<^verbatim>\<open>__init__\<close>.\<close>

definition init :: "string \<Rightarrow> CSVDataProcessor" where
  "init path =
     \<lparr>train_data_csv_path = path, data = None, is_training_data = None, headers = None,
      possible_actions_set = [], possible_screens_set = [],
      possible_configurations_set = [], possible_chaines_set = []\<rparr>"

text \<open>The body of the inner loop of \<^verbatim>\<open>extract_all_possible_features\<close>, for one cell.\<close>

definition add_features :: "CSVDataProcessor \<Rightarrow> string \<Rightarrow> CSVDataProcessor" where
  "add_features self action =
     (case extract_features_from_action action of
        (trimmed_action, screen, configuration, chaine) \<Rightarrow>
          (let s1 = (case trimmed_action of None \<Rightarrow> self
                     | Some a \<Rightarrow> self\<lparr>possible_actions_set := set_add a (possible_actions_set self)\<rparr>);
               s2 = (case screen of None \<Rightarrow> s1
                     | Some x \<Rightarrow> s1\<lparr>possible_screens_set := set_add x (possible_screens_set s1)\<rparr>);
               s3 = (case configuration of None \<Rightarrow> s2
                     | Some x \<Rightarrow> s2\<lparr>possible_configurations_set :=
                                        set_add x (possible_configurations_set s2)\<rparr>);
               s4 = (case chaine of None \<Rightarrow> s3
                     | Some x \<Rightarrow> s3\<lparr>possible_chaines_set := set_add x (possible_chaines_set s3)\<rparr>)
           in s4))"

definition extract_all_possible_features :: "CSVDataProcessor \<Rightarrow> error + CSVDataProcessor" where
  "extract_all_possible_features self =
     (let index = (if is_training_data self = Some True then 2 else 1)
      in case data self of
           None \<Rightarrow> Inl TypeError
         | Some rows \<Rightarrow> Inr (foldl (\<lambda>s row. foldl add_features s (drop index row)) self rows))"

definition action_label :: "string \<Rightarrow> string" where
  "action_label a = ''occurrence of action '' @ [CHR 0x27] @ a @ [CHR 0x27] @ '' ''"

definition screen_label :: "string \<Rightarrow> string" where
  "screen_label a = ''occurrence of screen '' @ [CHR 0x27] @ a @ [CHR 0x27] @ '' ''"

definition configuration_label :: "string \<Rightarrow> string" where
  "configuration_label a = ''occurrence of configuration '' @ [CHR 0x27] @ a @ [CHR 0x27] @ '' ''"

definition chaine_label :: "string \<Rightarrow> string" where
  "chaine_label a = ''occurrence of chaine '' @ [CHR 0x27] @ a @ [CHR 0x27] @ '' ''"

text \<open>\<^verbatim>\<open>create_headers\<close> returns the column names and the object, whose sets it may have filled.\<close>

definition create_headers :: "CSVDataProcessor \<Rightarrow> error + (string list \<times> CSVDataProcessor)" where
  "create_headers self =
     (let initial_columns = [''navigator'', ''total_actions'', ''session_duration'', ''avg_speed'']
      in case (if is_training_data self = Some True
               then map_sum id (Pair (''user'' # initial_columns)) (extract_all_possible_features self)
               else Inr (initial_columns, self)) of
           Inl e \<Rightarrow> Inl e
         | Inr (initial_columns, self) \<Rightarrow>
             Inr (initial_columns
                    @ map action_label (possible_actions_set self)
                    @ map screen_label (possible_screens_set self)
                    @ map configuration_label (possible_configurations_set self)
                    @ map chaine_label (possible_chaines_set self),
                  self))"

text \<open>
  A method that writes to the object before it may raise returns the object together with
  its result, so that the writes that happened before the exception are kept.
\<close>

definition initialise :: "files \<Rightarrow> CSVDataProcessor \<Rightarrow> CSVDataProcessor \<times> (error + unit)" where
  "initialise fs self =
     (case read_csv_file fs (train_data_csv_path self) True of
        Inl e \<Rightarrow> (self, Inl e)
      | Inr train_data \<Rightarrow>
          (let s1 = self\<lparr>is_training_data := Some True, data := Some train_data\<rparr>
           in case create_headers s1 of
                Inl e \<Rightarrow> (s1, Inl e)
              | Inr (hs, s2) \<Rightarrow> (s2\<lparr>headers := Some hs\<rparr>, Inr ())))"

section \<open>\<^verbatim>\<open>extract_data_from_row\<close>\<close>

text \<open>
  The four dictionaries of occurrences are maps; \<open>bump\<close> is
  \<^verbatim>\<open>d[k] = d.get(k, 0) + 1\<close> and \<open>dict_get\<close> is \<^verbatim>\<open>d.get(k, default)\<close>.
\<close>

type_synonym occurrences = "string \<rightharpoonup> int"

definition dict_get :: "occurrences \<Rightarrow> string \<Rightarrow> int \<Rightarrow> int" where
  "dict_get d k dflt = (case d k of None \<Rightarrow> dflt | Some v \<Rightarrow> v)"

definition bump :: "occurrences \<Rightarrow> string option \<Rightarrow> occurrences" where
  "bump d k = (case k of None \<Rightarrow> d | Some x \<Rightarrow> d(x \<mapsto> dict_get d x 0 + 1))"

text \<open>The body of the counting loop, for one cell.\<close>

definition count_features ::
  "occurrences \<times> occurrences \<times> occurrences \<times> occurrences \<Rightarrow> string \<Rightarrow>
   occurrences \<times> occurrences \<times> occurrences \<times> occurrences" where
  "count_features occ action =
     (case occ of
        (possible_actions_occurrences, screens_occurrences, configurations_occurrences,
         chaines_occurrences) \<Rightarrow>
          (case extract_features_from_action action of
             (trimmed_action, screen, configuration, chaine) \<Rightarrow>
               (bump possible_actions_occurrences trimmed_action,
                bump screens_occurrences screen,
                bump configurations_occurrences configuration,
                bump chaines_occurrences chaine)))"

definition extract_data_from_row :: "CSVDataProcessor \<Rightarrow> string list \<Rightarrow> error + pyval list" where
  "extract_data_from_row self row0 =
     (case (if is_training_data self = Some True
            then (case row0 of [] \<Rightarrow> Inl IndexError | user # rest \<Rightarrow> Inr ([PStr user], rest))
            else Inr ([], row0)) of
        Inl e \<Rightarrow> Inl e
      | Inr (result_row0, row) \<Rightarrow>
          (case row of
             [] \<Rightarrow> Inl IndexError
           | navigator # actions \<Rightarrow>
               (let all_actions = filter (\<lambda>action. \<not> is_time_marker action) actions;
                    total_actions = int (length all_actions);
                    times = filter is_time_marker actions
                in if times = [] then Inl IndexError
                   else
                     (let session_duration = drop 1 (last times)
                      in case py_int session_duration of
                           Inl e \<Rightarrow> Inl e
                         | Inr duration \<Rightarrow>
                             (case (if duration > 0 then py_truediv total_actions duration
                                    else Inr (PInt 0)) of
                                Inl e \<Rightarrow> Inl e
                              | Inr avg_speed \<Rightarrow>
                                  (case foldl count_features
                                          (Map.empty, Map.empty, Map.empty, Map.empty) actions of
                                     (possible_actions_occurrences, screens_occurrences,
                                      configurations_occurrences, chaines_occurrences) \<Rightarrow>
                                       Inr (result_row0
                                            @ [PStr navigator, PInt total_actions,
                                               PStr session_duration, avg_speed]
                                            @ map (\<lambda>a. PInt (dict_get possible_actions_occurrences a 0))
                                                (possible_actions_set self)
                                            @ map (\<lambda>a. PInt (dict_get screens_occurrences a 0))
                                                (possible_screens_set self)
                                            @ map (\<lambda>a. PInt (dict_get configurations_occurrences a 0))
                                                (possible_configurations_set self)
                                            @ map (\<lambda>a. PInt (dict_get chaines_occurrences a 0))
                                                (possible_chaines_set self))))))))"

section \<open>\<^verbatim>\<open>process_data\<close> and the two entry points\<close>

text \<open>
  The table that \<^verbatim>\<open>pd.DataFrame(data=..., columns=...)\<close> builds is kept as its two
  arguments.
\<close>

record DataFrame =
  df_data :: "pyval list list"
  df_columns :: "string list option"

text \<open>A list comprehension whose body may raise stops at the first exception.\<close>

fun try_map :: "('a \<Rightarrow> error + 'b) \<Rightarrow> 'a list \<Rightarrow> error + 'b list" where
  "try_map f [] = Inr []"
| "try_map f (x # xs) =
     (case f x of
        Inl e \<Rightarrow> Inl e
      | Inr y \<Rightarrow> (case try_map f xs of Inl e \<Rightarrow> Inl e | Inr ys \<Rightarrow> Inr (y # ys)))"

definition process_data ::
  "CSVDataProcessor \<Rightarrow> string list list option \<Rightarrow> bool \<Rightarrow> CSVDataProcessor \<times> (error + DataFrame)" where
  "process_data self dat is_training =
     (case (if \<not> is_training then
              (case dat of
                 None \<Rightarrow> (self, Inl AssertionError)
               | Some d \<Rightarrow>
                   (let s1 = self\<lparr>data := Some d\<rparr>
                    in case headers s1 of
                         None \<Rightarrow> (s1, Inl TypeError)
                       | Some h \<Rightarrow> (s1, Inr (Some (drop 1 h)))))
            else (self, Inr (headers self))) of
        (s1, Inl e) \<Rightarrow> (s1, Inl e)
      | (s1, Inr hdrs) \<Rightarrow>
          (let s2 = s1\<lparr>is_training_data := Some is_training\<rparr>
           in case data s2 of
                None \<Rightarrow> (s2, Inl TypeError)
              | Some rows \<Rightarrow>
                  (case try_map (extract_data_from_row s2) rows of
                     Inl e \<Rightarrow> (s2, Inl e)
                   | Inr processed_csv_data \<Rightarrow>
                       (s2, Inr \<lparr>df_data = processed_csv_data, df_columns = hdrs\<rparr>))))"

definition get_processed_train_data ::
  "files \<Rightarrow> CSVDataProcessor \<Rightarrow> CSVDataProcessor \<times> (error + DataFrame)" where
  "get_processed_train_data fs self =
     (case (if data self = None \<or> headers self = None then initialise fs self
            else (self, Inr ())) of
        (s1, Inl e) \<Rightarrow> (s1, Inl e)
      | (s1, Inr u) \<Rightarrow> process_data s1 None True)"

definition get_processed_test_data ::
  "files \<Rightarrow> CSVDataProcessor \<Rightarrow> string \<Rightarrow> CSVDataProcessor \<times> (error + DataFrame)" where
  "get_processed_test_data fs self test_data_csv_path =
     (case (if headers self = None then initialise fs self else (self, Inr ())) of
        (s1, Inl e) \<Rightarrow> (s1, Inl e)
      | (s1, Inr u) \<Rightarrow>
          (case read_csv_file fs test_data_csv_path True of
             Inl e \<Rightarrow> (s1, Inl e)
           | Inr test_data \<Rightarrow>
               process_data (s1\<lparr>is_training_data := Some False\<rparr>) (Some test_data) False))"

section \<open>Definitions used in the statements and proofs\<close>

text \<open>
  What one optional bracketed group of the pattern does when matching is deterministic:
  no group at the start of the text, the group and the text behind it, or no match of the
  whole pattern (an opening character without a well-formed group).
\<close>

definition grp :: "char \<Rightarrow> char \<Rightarrow> string \<Rightarrow> (string option \<times> string) option" where
  "grp opn cls r =
     (case r of
        [] \<Rightarrow> Some (None, [])
      | x # r' \<Rightarrow>
          if x \<noteq> opn then Some (None, r)
          else if takeWhile (\<lambda>c. c \<noteq> cls) r' \<noteq> [] \<and> dropWhile (\<lambda>c. c \<noteq> cls) r' \<noteq> []
               then Some (Some (takeWhile (\<lambda>c. c \<noteq> cls) r'), tl (dropWhile (\<lambda>c. c \<noteq> cls) r'))
               else None)"

text \<open>The three bracketed groups and the final \<^verbatim>\<open>$\<close>, after an action group \<open>a\<close>.\<close>

definition parse_tail :: "string option \<Rightarrow> string \<Rightarrow> features list" where
  "parse_tail a r1 =
     (case grp CHR ''('' CHR '')'' r1 of
        None \<Rightarrow> []
      | Some (sc, r2) \<Rightarrow>
          (case grp CHR ''<'' CHR ''>'' r2 of
             None \<Rightarrow> []
           | Some (cf, r3) \<Rightarrow>
               (case grp CHR ''$'' CHR ''$'' r3 of
                  None \<Rightarrow> []
                | Some (ch, r4) \<Rightarrow> if re_dollar r4 then [(a, sc, cf, ch)] else [])))"

text \<open>The longest run of characters that the action group can take.\<close>

definition action_run :: "string \<Rightarrow> string option" where
  "action_run s = (if takeWhile action_class s = [] then None else Some (takeWhile action_class s))"

text \<open>Two files: one training row, one test row with an action and a screen not in it.\<close>

definition example_files :: files where
  "example_files =
     map_of [(''train.csv'', [[''u1'', ''chrome'', ''t5'', ''click(home)'', ''t12'']]),
             (''test.csv'', [[''firefox'', ''scroll(menu)'', ''t7'']])]"

text \<open>
  The shape \<^verbatim>\<open>t<digits>\<close> in the words of the specification, to compare with the test
  \<open>is_time_marker\<close> of the code: a \<^verbatim>\<open>t\<close>, one digit or more, and nothing else.
\<close>

definition spec_time_shaped :: "string \<Rightarrow> bool" where
  "spec_time_shaped s =
     (case s of [] \<Rightarrow> False | x # ds \<Rightarrow> x = CHR ''t'' \<and> ds \<noteq> [] \<and> list_all is_digit ds)"

text \<open>
  The cells of a row behind the user (for a training row) and the navigator: the tokens.
\<close>

definition token_index :: "CSVDataProcessor \<Rightarrow> nat" where
  "token_index self = (if is_training_data self = Some True then 2 else 1)"

definition tokens :: "CSVDataProcessor \<Rightarrow> string list \<Rightarrow> string list" where
  "tokens self row = drop (token_index self) row"

text \<open>
  How many of the cells give the value \<open>v\<close> in one field of their parse; \<open>field\<close> is
  \<open>fst\<close> for the action, \<open>fst \<circ> snd\<close> for the screen, \<open>fst \<circ> snd \<circ> snd\<close> for the
  configuration and \<open>snd \<circ> snd \<circ> snd\<close> for the chaine.
\<close>

definition occurrences_of :: "(features \<Rightarrow> string option) \<Rightarrow> string \<Rightarrow> string list \<Rightarrow> int" where
  "occurrences_of field v cells =
     int (length (filter (\<lambda>c. field (extract_features_from_action c) = Some v) cells))"

text \<open>
  The closed form of a projected row: the leading cells (user and navigator, or the navigator
  alone), the number of cells that are not time markers, the text of the last time marker
  behind its \<^verbatim>\<open>t\<close>, the speed, and one count for every member of the vocabulary.
\<close>

definition projection :: "CSVDataProcessor \<Rightarrow> string list \<Rightarrow> string list \<Rightarrow> pyval list" where
  "projection self leading cells =
     (let total_actions = int (length (filter (\<lambda>c. \<not> is_time_marker c) cells));
          session_duration = drop 1 (last (filter is_time_marker cells));
          duration = decimal (strip session_duration)
      in map PStr leading
         @ [PInt total_actions, PStr session_duration,
            if 0 < duration then PFloat (of_int total_actions / of_int duration) else PInt 0]
         @ map (\<lambda>v. PInt (occurrences_of fst v cells)) (possible_actions_set self)
         @ map (\<lambda>v. PInt (occurrences_of (fst \<circ> snd) v cells)) (possible_screens_set self)
         @ map (\<lambda>v. PInt (occurrences_of (fst \<circ> snd \<circ> snd) v cells)) (possible_configurations_set self)
         @ map (\<lambda>v. PInt (occurrences_of (snd \<circ> snd \<circ> snd) v cells)) (possible_chaines_set self))"

text \<open>The three computed columns of a projected row, by their position.\<close>

definition total_actions_of :: "CSVDataProcessor \<Rightarrow> pyval list \<Rightarrow> pyval" where
  "total_actions_of self r = r ! token_index self"

definition session_duration_of :: "CSVDataProcessor \<Rightarrow> pyval list \<Rightarrow> pyval" where
  "session_duration_of self r = r ! Suc (token_index self)"

definition avg_speed_of :: "CSVDataProcessor \<Rightarrow> pyval list \<Rightarrow> pyval" where
  "avg_speed_of self r = r ! Suc (Suc (token_index self))"

text \<open>
  The object after \<^verbatim>\<open>_initialise\<close> on the training file of the example, and the same
  object in test mode.
\<close>

definition example_processor :: CSVDataProcessor where
  "example_processor = fst (initialise example_files (init ''train.csv''))"

definition example_test_processor :: CSVDataProcessor where
  "example_test_processor = example_processor\<lparr>is_training_data := Some False\<rparr>"

text \<open>No set of the vocabulary lists a value twice; the labels of the vocabulary columns.\<close>

definition vocabulary_distinct :: "CSVDataProcessor \<Rightarrow> bool" where
  "vocabulary_distinct s =
     (distinct (possible_actions_set s) \<and> distinct (possible_screens_set s)
      \<and> distinct (possible_configurations_set s) \<and> distinct (possible_chaines_set s))"

definition vocabulary_labels :: "CSVDataProcessor \<Rightarrow> string list" where
  "vocabulary_labels s =
     map action_label (possible_actions_set s) @ map screen_label (possible_screens_set s)
     @ map configuration_label (possible_configurations_set s)
     @ map chaine_label (possible_chaines_set s)"

section \<open>The backtracking matchers are deterministic\<close>


lemma rev_upt_from_one: "0 < n \<Longrightarrow> rev [1 ..< Suc n] = n # rev [1 ..< n]"
  by (cases n) simp_all

lemma concat_map_all_nil: "(\<And>x. x \<in> set xs \<Longrightarrow> f x = []) \<Longrightarrow> concat (map f xs) = []"
  by (induction xs) simp_all

lemma concat_longest_only:
  assumes "\<And>k. 1 \<le> k \<Longrightarrow> k < n \<Longrightarrow> f k = []"
  shows "concat (map f (rev [1 ..< Suc n])) = (if n = 0 then [] else f n)"
proof (cases "n = 0")
  case True
  then show ?thesis by simp
next
  case False
  then have "rev [1 ..< Suc n] = n # rev [1 ..< n]"
    by (simp add: rev_upt_from_one)
  moreover have "concat (map f (rev [1 ..< n])) = []"
    by (rule concat_map_all_nil) (use assms in auto)
  ultimately show ?thesis using False by simp
qed

lemma drop_in_run:
  assumes "k < length (takeWhile P xs)"
  shows "\<exists>x rest. drop k xs = x # rest \<and> P x"
proof -
  have "k < length xs"
    using assms length_takeWhile_le [of P xs] by (rule less_le_trans)
  then have "drop k xs = xs ! k # drop (Suc k) xs"
    by (simp add: Cons_nth_drop_Suc)
  moreover have "P (xs ! k)"
    using assms by (metis nth_mem set_takeWhileD takeWhile_nth)
  ultimately show ?thesis by blast
qed

lemma take_run: "take (length (takeWhile P xs)) xs = takeWhile P xs"
  by (rule takeWhile_eq_take [symmetric])

lemma drop_run: "drop (length (takeWhile P xs)) xs = dropWhile P xs"
  by (rule dropWhile_eq_drop [symmetric])

lemma re_lit_after_run:
  "re_lit c (dropWhile (\<lambda>x. x \<noteq> c) xs) =
     (if dropWhile (\<lambda>x. x \<noteq> c) xs = [] then [] else [((), tl (dropWhile (\<lambda>x. x \<noteq> c) xs))])"
proof (cases "dropWhile (\<lambda>x. x \<noteq> c) xs")
  case Nil
  show ?thesis unfolding Nil by (simp add: re_lit_def)
next
  case (Cons y ys)
  then have "y = c"
    using hd_dropWhile [of "\<lambda>x. x \<noteq> c" xs] by auto
  with Cons show ?thesis by (simp add: re_lit_def)
qed

lemma re_group_Nil: "re_group opn cls [] = []"
  by (simp add: re_group_def re_lit_def)

lemma re_group_Cons:
  "re_group opn cls (x # r) =
     (if x = opn \<and> takeWhile (\<lambda>c. c \<noteq> cls) r \<noteq> [] \<and> dropWhile (\<lambda>c. c \<noteq> cls) r \<noteq> []
      then [(takeWhile (\<lambda>c. c \<noteq> cls) r, tl (dropWhile (\<lambda>c. c \<noteq> cls) r))] else [])"
proof (cases "x = opn")
  case False
  then show ?thesis by (simp add: re_group_def re_lit_def)
next
  case True
  let ?P = "\<lambda>c. c \<noteq> cls"
  let ?n = "length (takeWhile ?P r)"
  let ?f = "\<lambda>k. map (\<lambda>(v, r3). (take k r, r3)) (re_lit cls (drop k r))"
  have short: "?f k = []" if lo: "1 \<le> k" and hi: "k < ?n" for k
  proof -
    obtain y rest where "drop k r = y # rest" "y \<noteq> cls"
      using drop_in_run [OF hi] by blast
    then show ?thesis by (simp add: re_lit_def)
  qed
  have "re_group opn cls (x # r) = concat (map ?f (rev [1 ..< Suc ?n]))"
    using True by (simp add: re_group_def re_lit_def re_plus_def comp_def case_prod_unfold)
  also have "\<dots> = (if ?n = 0 then [] else ?f ?n)"
    by (rule concat_longest_only) (rule short)
  also have "\<dots> = (if takeWhile ?P r \<noteq> [] \<and> dropWhile ?P r \<noteq> []
                      then [(takeWhile ?P r, tl (dropWhile ?P r))] else [])"
    by (auto simp add: take_run drop_run re_lit_after_run)
  finally show ?thesis using True by simp
qed

lemma opt_group_bind:
  assumes "\<And>r'. k None (opn # r') = []"
  shows "concat (map (\<lambda>(g, r'). k g r') (re_opt (re_group opn cls) r)) =
           (case grp opn cls r of None \<Rightarrow> [] | Some (g, r') \<Rightarrow> k g r')"
proof (cases r)
  case Nil
  then show ?thesis by (simp add: re_opt_def re_group_Nil grp_def)
next
  case (Cons x r')
  then show ?thesis
    using assms by (simp add: re_opt_def re_group_Cons grp_def)
qed

lemma action_regex_tail:
  "action_regex s = concat (map (\<lambda>(a, r1). parse_tail a r1) (re_opt (re_plus action_class) s))"
proof -
  have k4: "concat (map (\<lambda>(ch, r4). if re_dollar r4 then [(a, sc, cf, ch)] else [])
              (re_opt (re_group CHR ''$'' CHR ''$'') r3)) =
            (case grp CHR ''$'' CHR ''$'' r3 of None \<Rightarrow> []
             | Some (ch, r4) \<Rightarrow> if re_dollar r4 then [(a, sc, cf, ch)] else [])" for a sc cf r3
    by (rule opt_group_bind) (simp add: re_dollar_def)
  have k3: "concat (map (\<lambda>(cf, r3). case grp CHR ''$'' CHR ''$'' r3 of None \<Rightarrow> []
             | Some (ch, r4) \<Rightarrow> if re_dollar r4 then [(a, sc, cf, ch)] else [])
              (re_opt (re_group CHR ''<'' CHR ''>'') r2)) =
            (case grp CHR ''<'' CHR ''>'' r2 of None \<Rightarrow> []
             | Some (cf, r3) \<Rightarrow> (case grp CHR ''$'' CHR ''$'' r3 of None \<Rightarrow> []
             | Some (ch, r4) \<Rightarrow> if re_dollar r4 then [(a, sc, cf, ch)] else []))" for a sc r2
    by (rule opt_group_bind) (simp add: re_dollar_def grp_def)
  have k2: "concat (map (\<lambda>(sc, r2). case grp CHR ''<'' CHR ''>'' r2 of None \<Rightarrow> []
             | Some (cf, r3) \<Rightarrow> (case grp CHR ''$'' CHR ''$'' r3 of None \<Rightarrow> []
             | Some (ch, r4) \<Rightarrow> if re_dollar r4 then [(a, sc, cf, ch)] else []))
              (re_opt (re_group CHR ''('' CHR '')'') r1)) = parse_tail a r1" for a r1
    unfolding parse_tail_def by (rule opt_group_bind) (simp add: re_dollar_def grp_def)
  show ?thesis
    unfolding action_regex_def by (simp only: k4 k3 k2)
qed

lemma parse_tail_Nil: "parse_tail a [] = [(a, None, None, None)]"
  by (simp add: parse_tail_def grp_def re_dollar_def)

lemma parse_tail_class: "action_class x \<Longrightarrow> r \<noteq> [] \<Longrightarrow> parse_tail a (x # r) = []"
  by (simp add: parse_tail_def grp_def re_dollar_def action_class_def)

lemma re_first_append: "re_first (xs @ ys) = (if xs = [] then re_first ys else re_first xs)"
  by (cases xs) (simp_all add: re_first_def)

lemma action_regex_first:
  "re_first (action_regex s) = re_first (parse_tail (action_run s) (dropWhile action_class s))"
proof -
  let ?n = "length (takeWhile action_class s)"
  let ?f = "\<lambda>k. parse_tail (Some (take k s)) (drop k s)"
  have eq: "action_regex s = concat (map ?f (rev [1 ..< Suc ?n])) @ parse_tail None s"
    by (simp add: action_regex_tail re_opt_def re_plus_def comp_def)
  show ?thesis
  proof (cases "?n = 0")
    case True
    then have "takeWhile action_class s = []" by simp
    moreover from this have "dropWhile action_class s = s"
      by (cases s) (auto split: if_splits)
    ultimately show ?thesis using True by (simp add: eq action_run_def)
  next
    case False
    then have run: "action_run s = Some (takeWhile action_class s)"
      by (simp add: action_run_def)
    have longest: "?f ?n = parse_tail (action_run s) (dropWhile action_class s)"
      by (simp add: run take_run drop_run)
    have longest_first: "rev [1 ..< Suc ?n] = ?n # rev [1 ..< ?n]"
      by (rule rev_upt_from_one) (use False in simp)
    have split: "action_regex s = ?f ?n @ concat (map ?f (rev [1 ..< ?n])) @ parse_tail None s"
      unfolding eq longest_first by simp
    show ?thesis
    proof (cases "?f ?n = []")
      case False
      then show ?thesis by (simp add: split re_first_append longest)
    next
      case True
      have "dropWhile action_class s \<noteq> []"
      proof
        assume "dropWhile action_class s = []"
        then have "?f ?n = [(action_run s, None, None, None)]"
          unfolding longest by (simp only: parse_tail_Nil)
        with True show False by simp
      qed
      then have longer: "?n < length s"
        by (metis drop_run drop_eq_Nil not_le_imp_less)
      have shorter: "parse_tail a (drop k s) = []" if kn: "k < ?n" for a k
      proof -
        obtain x rest where d: "drop k s = x # rest" and c: "action_class x"
          using drop_in_run [OF kn] by blast
        have "length (drop k s) \<ge> 2" using kn longer by simp
        then have "rest \<noteq> []" using d by auto
        then show ?thesis using c d by (simp add: parse_tail_class)
      qed
      have c0: "concat (map ?f (rev [1 ..< ?n])) = []"
        by (rule concat_map_all_nil) (use shorter in auto)
      have p0: "parse_tail None s = []"
        using shorter [of 0 None] False by simp
      have "action_regex s = []"
        by (simp only: split True c0 p0 append_Nil)
      moreover have "parse_tail (action_run s) (dropWhile action_class s) = []"
        using True longest by simp
      ultimately show ?thesis by simp
    qed
  qed
qed

lemma newline_not_digit: "\<not> is_digit (CHR 0x0A)"
  by (simp add: is_digit_def)

lemma time_regex_Cons:
  "time_regex (x # r) =
     (if x = CHR ''t'' \<and> takeWhile is_digit r \<noteq> [] \<and> re_dollar (dropWhile is_digit r)
      then [takeWhile is_digit r] else [])"
proof (cases "x = CHR ''t''")
  case False
  then show ?thesis by (simp add: time_regex_def re_lit_def)
next
  case True
  let ?n = "length (takeWhile is_digit r)"
  let ?f = "\<lambda>k. if re_dollar (drop k r) then [take k r] else []"
  have short: "?f k = []" if lo: "1 \<le> k" and hi: "k < ?n" for k
  proof -
    obtain y rest where "drop k r = y # rest" "is_digit y"
      using drop_in_run [OF hi] by blast
    then show ?thesis using newline_not_digit by (auto simp add: re_dollar_def)
  qed
  have "time_regex (x # r) = concat (map ?f (rev [1 ..< Suc ?n]))"
    using True by (simp add: time_regex_def re_lit_def re_plus_def comp_def)
  also have "\<dots> = (if ?n = 0 then [] else ?f ?n)"
    by (rule concat_longest_only) (rule short)
  finally show ?thesis using True by (auto simp add: take_run drop_run)
qed

lemma is_time_marker_Nil: "\<not> is_time_marker []"
  by (simp add: is_time_marker_def time_regex_def re_lit_def)

lemma is_time_marker_Cons:
  "is_time_marker (x # r) \<longleftrightarrow>
     x = CHR ''t'' \<and> takeWhile is_digit r \<noteq> [] \<and> re_dollar (dropWhile is_digit r)"
  by (simp add: is_time_marker_def time_regex_Cons)

text \<open>A time marker is a \<^verbatim>\<open>t\<close>, one digit or more, and possibly one final newline.\<close>

lemma is_time_marker_iff:
  "is_time_marker s \<longleftrightarrow>
     (\<exists>ds. ds \<noteq> [] \<and> list_all is_digit ds \<and> (s = CHR ''t'' # ds \<or> s = CHR ''t'' # ds @ [CHR 0x0A]))"
proof
  assume "is_time_marker s"
  then obtain r where s: "s = CHR ''t'' # r" and ne: "takeWhile is_digit r \<noteq> []"
      and e: "re_dollar (dropWhile is_digit r)"
    by (cases s) (auto simp add: is_time_marker_Cons is_time_marker_Nil)
  have "r = takeWhile is_digit r @ dropWhile is_digit r" by simp
  moreover have "list_all is_digit (takeWhile is_digit r)"
    by (simp add: list_all_iff) (meson set_takeWhileD)
  ultimately show "\<exists>ds. ds \<noteq> [] \<and> list_all is_digit ds \<and> (s = CHR ''t'' # ds \<or> s = CHR ''t'' # ds @ [CHR 0x0A])"
    using s ne e unfolding re_dollar_def by (metis append_Nil2)
next
  assume "\<exists>ds. ds \<noteq> [] \<and> list_all is_digit ds \<and> (s = CHR ''t'' # ds \<or> s = CHR ''t'' # ds @ [CHR 0x0A])"
  then obtain ds where ne: "ds \<noteq> []" and dg: "list_all is_digit ds"
      and s: "s = CHR ''t'' # ds \<or> s = CHR ''t'' # ds @ [CHR 0x0A]"
    by blast
  have all: "\<forall>x\<in>set ds. is_digit x" using dg by (simp add: list_all_iff)
  have tw0: "takeWhile is_digit ds = ds" using all by simp
  have dw0: "dropWhile is_digit ds = []" using all by simp
  have tw1: "takeWhile is_digit (ds @ [CHR 0x0A]) = ds"
    using all newline_not_digit by (simp add: takeWhile_append2)
  have dw1: "dropWhile is_digit (ds @ [CHR 0x0A]) = [CHR 0x0A]"
    using all newline_not_digit by (simp add: dropWhile_append2)
  from s show "is_time_marker s"
    using ne by (auto simp add: is_time_marker_Cons tw0 dw0 tw1 dw1 re_dollar_def)
qed

text \<open>
  The test of the code accepts the strings of the shape \<^verbatim>\<open>t<digits>\<close> and, beyond them,
  these strings with one newline behind them.
\<close>

lemma is_time_marker_spec:
  "is_time_marker s \<longleftrightarrow>
     spec_time_shaped s \<or> (\<exists>s'. s = s' @ [CHR 0x0A] \<and> spec_time_shaped s')"
proof
  assume "is_time_marker s"
  then obtain ds where "ds \<noteq> []" "list_all is_digit ds"
      "s = CHR ''t'' # ds \<or> s = CHR ''t'' # ds @ [CHR 0x0A]"
    unfolding is_time_marker_iff by blast
  then have "spec_time_shaped (CHR ''t'' # ds)"
      "s = CHR ''t'' # ds \<or> s = (CHR ''t'' # ds) @ [CHR 0x0A]"
    by (simp_all add: spec_time_shaped_def)
  then show "spec_time_shaped s \<or> (\<exists>s'. s = s' @ [CHR 0x0A] \<and> spec_time_shaped s')"
    by metis
next
  assume a: "spec_time_shaped s \<or> (\<exists>s'. s = s' @ [CHR 0x0A] \<and> spec_time_shaped s')"
  have shaped: "\<exists>ds. ds \<noteq> [] \<and> list_all is_digit ds \<and> u = CHR ''t'' # ds"
    if "spec_time_shaped u" for u
    using that by (cases u) (simp_all add: spec_time_shaped_def)
  from a show "is_time_marker s"
    unfolding is_time_marker_iff using shaped by fastforce
qed

section \<open>The vocabulary\<close>

lemma set_set_add: "set (set_add x xs) = insert x (set xs)"
  by (auto simp add: set_add_def)

lemma distinct_set_add: "distinct xs \<Longrightarrow> distinct (set_add x xs)"
  by (simp add: set_add_def)

lemma add_features_actions:
  "set (possible_actions_set (add_features s c)) =
     set (possible_actions_set s) \<union> set_option (fst (extract_features_from_action c))"
  by (cases "extract_features_from_action c")
     (auto simp add: add_features_def Let_def set_set_add split: option.splits)

lemma foldl_add_features_actions:
  "set (possible_actions_set (foldl add_features s cs)) =
     set (possible_actions_set s) \<union> (\<Union>c\<in>set cs. set_option (fst (extract_features_from_action c)))"
  by (induction cs arbitrary: s) (auto simp add: add_features_actions)

lemma rows_add_features_actions:
  "set (possible_actions_set (foldl (\<lambda>s row. foldl add_features s (drop i row)) s rows)) =
     set (possible_actions_set s) \<union>
     (\<Union>row\<in>set rows. \<Union>c\<in>set (drop i row). set_option (fst (extract_features_from_action c)))"
  by (induction rows arbitrary: s) (auto simp add: foldl_add_features_actions)

lemma initialise_file:
  assumes "fs (train_data_csv_path self) = Some (header # rest)"
  shows "initialise fs self =
     (let s1 = foldl (\<lambda>s row. foldl add_features s (drop 2 row))
                 (self\<lparr>is_training_data := Some True, data := Some (header # rest)\<rparr>) (header # rest)
      in (s1\<lparr>headers := Some ([''user'', ''navigator'', ''total_actions'', ''session_duration'', ''avg_speed'']
                    @ map action_label (possible_actions_set s1)
                    @ map screen_label (possible_screens_set s1)
                    @ map configuration_label (possible_configurations_set s1)
                    @ map chaine_label (possible_chaines_set s1))\<rparr>, Inr ()))"
  using assms
  by (simp add: initialise_def read_csv_file_def create_headers_def
      extract_all_possible_features_def Let_def)


lemma add_features_frame:
  "data (add_features s c) = data s"
  "is_training_data (add_features s c) = is_training_data s"
  "headers (add_features s c) = headers s"
  "train_data_csv_path (add_features s c) = train_data_csv_path s"
  by (cases "extract_features_from_action c";
      simp add: add_features_def Let_def split: option.splits)+

lemma foldl_add_features_frame:
  "data (foldl add_features s cs) = data s"
  "is_training_data (foldl add_features s cs) = is_training_data s"
  "headers (foldl add_features s cs) = headers s"
  "train_data_csv_path (foldl add_features s cs) = train_data_csv_path s"
  by (induction cs arbitrary: s; simp add: add_features_frame)+

lemma rows_add_features_frame:
  "data (foldl (\<lambda>s row. foldl add_features s (drop i row)) s rows) = data s"
  "is_training_data (foldl (\<lambda>s row. foldl add_features s (drop i row)) s rows) = is_training_data s"
  "headers (foldl (\<lambda>s row. foldl add_features s (drop i row)) s rows) = headers s"
  "train_data_csv_path (foldl (\<lambda>s row. foldl add_features s (drop i row)) s rows) =
     train_data_csv_path s"
  by (induction rows arbitrary: s; simp add: foldl_add_features_frame)+

lemma initialise_frame:
  assumes "fs (train_data_csv_path self) = Some (header # rest)"
  shows "data (fst (initialise fs self)) = Some (header # rest)"
    and "is_training_data (fst (initialise fs self)) = Some True"
    and "headers (fst (initialise fs self)) \<noteq> None"
    and "snd (initialise fs self) = Inr ()"
  using initialise_file [of fs self header rest] assms
  by (simp_all add: Let_def rows_add_features_frame foldl_add_features_frame del: foldl_Cons)

lemma initialise_actions:
  assumes "fs (train_data_csv_path self) = Some rows" and "rows \<noteq> []"
  shows "set (possible_actions_set (fst (initialise fs self))) =
           set (possible_actions_set self) \<union>
           (\<Union>row\<in>set rows. \<Union>c\<in>set (drop 2 row). set_option (fst (extract_features_from_action c)))"
proof -
  obtain header rest where r: "rows = header # rest"
    using assms(2) by (cases rows) auto
  show ?thesis
    using initialise_file [of fs self header rest] assms(1) unfolding r
    by (simp add: Let_def rows_add_features_actions del: foldl_Cons)
qed

section \<open>Reading the files\<close>

text \<open>
  Claim C10, as amended. For a file with at least one row, \<^verbatim>\<open>read_csv_file\<close> returns
  all the rows of the file, the first one included, whether \<^verbatim>\<open>has_header\<close> is true or
  false. \<^verbatim>\<open>_initialise\<close> stores these rows, so that the first row of the training file
  reaches the vocabulary (the actions of its cells from the third on are in the set of
  actions) and its projection is the first one that \<^verbatim>\<open>get_processed_train_data\<close>
  computes, on an object that has not loaded anything yet.
\<close>

theorem header_flag_ignored:
  assumes "fs (train_data_csv_path self) = Some (header # rest)" and "data self = None"
  shows "read_csv_file fs (train_data_csv_path self) True = Inr (header # rest)
       \<and> read_csv_file fs (train_data_csv_path self) False = Inr (header # rest)
       \<and> data (fst (initialise fs self)) = Some (header # rest)
       \<and> (\<Union>c\<in>set (drop 2 header). set_option (fst (extract_features_from_action c)))
           \<subseteq> set (possible_actions_set (fst (initialise fs self)))
       \<and> snd (get_processed_train_data fs self) =
           (case try_map (extract_data_from_row (fst (initialise fs self))) (header # rest) of
              Inl e \<Rightarrow> Inl e
            | Inr table \<Rightarrow> Inr \<lparr>df_data = table, df_columns = headers (fst (initialise fs self))\<rparr>)"
proof -
  let ?s = "fst (initialise fs self)"
  have rd: "read_csv_file fs (train_data_csv_path self) True = Inr (header # rest)"
      "read_csv_file fs (train_data_csv_path self) False = Inr (header # rest)"
    using assms(1) by (simp_all add: read_csv_file_def)
  have voc: "(\<Union>c\<in>set (drop 2 header). set_option (fst (extract_features_from_action c)))
           \<subseteq> set (possible_actions_set ?s)"
    using initialise_actions [of fs self "header # rest"] assms(1) by auto
  have fr: "data ?s = Some (header # rest)" "is_training_data ?s = Some True"
      "snd (initialise fs self) = Inr ()"
    using initialise_frame [of fs self header rest] assms(1) by simp_all
  have same: "?s\<lparr>is_training_data := Some True\<rparr> = ?s"
    using fr(2) by simp
  obtain s' where i: "initialise fs self = (s', Inr ())"
    using fr(3) by (cases "initialise fs self") auto
  have "get_processed_train_data fs self = process_data s' None True"
    using assms(2) by (simp add: get_processed_train_data_def i)
  moreover have "s' = ?s"
    by (simp add: i)
  ultimately have "get_processed_train_data fs self = process_data ?s None True"
    by simp
  then have "snd (get_processed_train_data fs self) =
           (case try_map (extract_data_from_row ?s) (header # rest) of
              Inl e \<Rightarrow> Inl e
            | Inr table \<Rightarrow> Inr \<lparr>df_data = table, df_columns = headers ?s\<rparr>)"
    by (simp add: process_data_def Let_def same fr(1) split: sum.splits del: try_map.simps)
  with rd voc fr(1) show ?thesis by simp
qed

text \<open>The training file of the example, with its single row in the place of the header.\<close>

theorem header_flag_ignored_witness:
  "example_files ''train.csv'' = Some ([''u1'', ''chrome'', ''t5'', ''click(home)'', ''t12''] # [])
   \<and> data (init ''train.csv'') = None
   \<and> read_csv_file example_files ''train.csv'' True = read_csv_file example_files ''train.csv'' False
   \<and> ''click'' \<in> set (possible_actions_set (fst (initialise example_files (init ''train.csv''))))"
proof -
  have f: "example_files (train_data_csv_path (init ''train.csv'')) =
             Some ([''u1'', ''chrome'', ''t5'', ''click(home)'', ''t12''] # [])"
    by (simp add: example_files_def init_def)
  have d: "data (init ''train.csv'') = None"
    by (simp add: init_def)
  have c: "extract_features_from_action ''click(home)'' = (Some ''click'', Some ''home'', None, None)"
    by code_simp
  have p: "train_data_csv_path (init ''train.csv'') = ''train.csv''"
    by (simp add: init_def)
  show ?thesis
    using header_flag_ignored [of example_files "init ''train.csv''"
        "[''u1'', ''chrome'', ''t5'', ''click(home)'', ''t12'']" "[]"] f d c
    unfolding p by simp
qed

text \<open>
  On a file without rows the flag does make a difference: with \<^verbatim>\<open>has_header\<close> the
  read of \<^verbatim>\<open>rows[0]\<close> raises, without it the empty list is returned.
\<close>

theorem header_flag_empty_file:
  "read_csv_file (map_of [(''empty.csv'', [])]) ''empty.csv'' True = Inl IndexError
   \<and> read_csv_file (map_of [(''empty.csv'', [])]) ''empty.csv'' False = Inr []"
  by (simp add: read_csv_file_def)

section \<open>The order of the two entry points\<close>

text \<open>
  Claim C4, on the files of the example. \<^verbatim>\<open>get_processed_train_data\<close> on a fresh object
  projects the training row. Called after \<^verbatim>\<open>get_processed_test_data\<close>, it finds
  \<^verbatim>\<open>self.data\<close> set to the test rows and \<^verbatim>\<open>self.headers\<close> set, does not load
  anything, and projects the test row as if it were a training row: its first cell is taken
  for the user and its second cell for the navigator.
\<close>

theorem train_after_test_projects_test_rows:
  "map_sum id df_data (snd (get_processed_train_data example_files (init ''train.csv''))) =
     Inr [[PStr ''u1'', PStr ''chrome'', PInt 1, PStr ''12'', PFloat (1 / 12), PInt 1, PInt 1]]
   \<and> map_sum id df_data (snd (get_processed_train_data example_files
        (fst (get_processed_test_data example_files (init ''train.csv'') ''test.csv'')))) =
     Inr [[PStr ''firefox'', PStr ''scroll(menu)'', PInt 0, PStr ''7'', PFloat 0, PInt 0, PInt 0]]"
  by code_simp

section \<open>Stripping\<close>

lemma rstrip_id:
  assumes "w \<noteq> []" and "\<not> is_space (last w)"
  shows "rev (dropWhile is_space (rev w)) = w"
proof -
  obtain ys y where w: "w = ys @ [y]"
    using assms(1) by (cases w rule: rev_cases) auto
  then have "\<not> is_space y"
    using assms(2) by simp
  then show ?thesis by (simp add: w)
qed

lemma strip_id:
  assumes "s \<noteq> []" and "\<not> is_space (hd s)" and "\<not> is_space (last s)"
  shows "strip s = s"
proof -
  have "dropWhile is_space s = s"
    using assms(1,2) by (cases s) simp_all
  then show ?thesis
    by (simp only: strip_def rstrip_id [OF assms(1,3)])
qed

lemma strip_prefix:
  assumes "\<not> is_space x" and "\<not> is_space (last (x # ys))"
  shows "strip (p @ x # ys) = dropWhile is_space p @ x # ys"
proof -
  let ?w = "dropWhile is_space p @ x # ys"
  have d: "dropWhile is_space (p @ x # ys) = ?w"
    using assms(1) by (simp add: dropWhile_append3)
  have "last ?w = last (x # ys)"
    by simp
  then have "rev (dropWhile is_space (rev ?w)) = ?w"
    using assms(2) by (intro rstrip_id) simp_all
  then show ?thesis
    by (simp only: strip_def d)
qed

lemma strip_final_newline:
  assumes "s \<noteq> []" and "\<not> is_space (hd s)" and "\<not> is_space (last s)"
  shows "strip (s @ [CHR 0x0A]) = s"
proof -
  have "dropWhile is_space (s @ [CHR 0x0A]) = s @ [CHR 0x0A]"
    using assms(1,2) by (cases s) simp_all
  moreover have "is_space (CHR 0x0A)"
    by (simp add: is_space_def)
  ultimately show ?thesis
    using assms(1,3) by (simp add: strip_def rstrip_id)
qed

lemma strip_dropWhile: "strip (dropWhile is_space s) = strip s"
  by (simp add: strip_def dropWhile_idem)

lemma set_strip: "set (strip s) \<subseteq> set s"
proof -
  have "set (dropWhile is_space (rev (dropWhile is_space s))) \<subseteq> set (rev (dropWhile is_space s))"
    by (rule set_dropWhileD [THEN subsetI]) 
  also have "\<dots> \<subseteq> set s"
    using set_dropWhileD [of _ is_space s] by auto
  finally show ?thesis by (simp add: strip_def)
qed

lemma strip_nonempty: "s \<noteq> [] \<Longrightarrow> \<not> is_space (hd s) \<Longrightarrow> strip s \<noteq> []"
proof -
  assume a: "s \<noteq> []" "\<not> is_space (hd s)"
  then obtain x xs where s: "s = x # xs" by (cases s) auto
  have "dropWhile is_space (rev xs @ [x]) \<noteq> []"
    using a(2) s by (simp add: dropWhile_append)
  then show ?thesis using a s by (simp add: strip_def)
qed

lemma digit_not_space: "is_digit c \<Longrightarrow> \<not> is_space c"
  by (auto simp add: is_digit_def is_space_def Let_def)


section \<open>The parser, through the deterministic scan\<close>

lemma extract_via_tail:
  "extract_features_from_action phrase =
     (case re_first (parse_tail (action_run (strip phrase))
                      (dropWhile action_class (strip phrase))) of
        None \<Rightarrow> (None, None, None, None)
      | Some (g1, g2, g3, g4) \<Rightarrow>
          ((case strip_if g1 of
              None \<Rightarrow> None
            | Some a \<Rightarrow> if a \<noteq> [] \<and> \<not> is_time_marker a then Some a else None),
           keep_if (strip_if g2), keep_if (strip_if g3), keep_if (map_option lower (strip_if g4))))"
  by (simp add: extract_features_from_action_def action_regex_first Let_def
      split: option.split prod.split)

lemma parse_tail_one: "parse_tail a (CHR ''1'' # r) = []"
  by (simp add: parse_tail_def grp_def re_dollar_def)

lemma parse_tail_fst: "m \<in> set (parse_tail a r) \<Longrightarrow> fst m = a"
  by (auto simp add: parse_tail_def split: option.splits if_splits)

lemma one_in_run:
  "CHR ''1'' \<in> set (takeWhile (\<lambda>c. c \<notin> set ''(<$'') s) \<Longrightarrow>
     \<exists>r. dropWhile action_class s = CHR ''1'' # r"
  by (induction s) (auto simp add: action_class_def split: if_splits)

lemma run_without_one:
  "\<not> (\<exists>r. dropWhile action_class s = CHR ''1'' # r) \<Longrightarrow>
     takeWhile action_class s = takeWhile (\<lambda>c. c \<notin> set ''(<$'') s"
  by (induction s) (auto simp add: action_class_def split: if_splits)

lemma one_not_in_action_run: "CHR ''1'' \<notin> set (takeWhile action_class s)"
  using set_takeWhileD [of "CHR ''1''" action_class s] by (auto simp add: action_class_def)

lemma extract_one_in_action:
  assumes "CHR ''1'' \<in> set (takeWhile (\<lambda>c. c \<notin> set ''(<$'') (strip phrase))"
  shows "extract_features_from_action phrase = (None, None, None, None)"
proof -
  obtain r where "dropWhile action_class (strip phrase) = CHR ''1'' # r"
    using one_in_run [OF assms] by blast
  then show ?thesis
    by (simp add: extract_via_tail parse_tail_one re_first_def)
qed

lemma extract_action_is_run:
  assumes "fst (extract_features_from_action phrase) = Some a"
  shows "a = strip (takeWhile (\<lambda>c. c \<notin> set ''(<$'') (strip phrase))" and "CHR ''1'' \<notin> set a"
proof -
  let ?s = "strip phrase"
  let ?t = "parse_tail (action_run ?s) (dropWhile action_class ?s)"
  from assms obtain m ms where t: "?t = m # ms"
    by (cases ?t) (auto simp add: extract_via_tail re_first_def)
  then have "m \<in> set ?t" by simp
  then have m: "fst m = action_run ?s" by (rule parse_tail_fst)
  obtain g1 g2 g3 g4 where mm: "m = (g1, g2, g3, g4)" by (cases m) auto
  from assms t mm have "strip_if g1 = Some a"
    by (auto simp add: extract_via_tail re_first_def split: option.splits if_splits)
  with m mm have a: "a = strip (takeWhile action_class ?s)"
    by (auto simp add: action_run_def strip_if_def split: if_splits)
  have "\<not> (\<exists>r. dropWhile action_class ?s = CHR ''1'' # r)"
    using t by (auto simp add: parse_tail_one)
  then have "takeWhile action_class ?s = takeWhile (\<lambda>c. c \<notin> set ''(<$'') ?s"
    by (rule run_without_one)
  with a show "a = strip (takeWhile (\<lambda>c. c \<notin> set ''(<$'') (strip phrase))" by simp
  show "CHR ''1'' \<notin> set a"
    using a set_strip [of "takeWhile action_class ?s"] one_not_in_action_run [of ?s] by auto
qed


lemma digit_outside_action_class:
  assumes "is_digit x" and "\<not> action_class x"
  shows "x = CHR ''1''"
proof -
  have nd: "\<not> is_digit CHR ''(''" "\<not> is_digit CHR ''<''" "\<not> is_digit CHR ''$''"
    by (simp_all add: is_digit_def)
  from assms(2) have "x = CHR ''('' \<or> x = CHR ''<'' \<or> x = CHR ''$'' \<or> x = CHR ''1''"
    by (simp add: action_class_def)
  with nd assms(1) show ?thesis by blast
qed

lemma parse_tail_digit: "is_digit x \<Longrightarrow> \<not> action_class x \<Longrightarrow> parse_tail a (x # r) = []"
  using digit_outside_action_class [of x] by (simp add: parse_tail_one)

lemma extract_time_marker:
  assumes "is_time_marker s"
  shows "extract_features_from_action s = (None, None, None, None)"
proof -
  obtain ds where ne: "ds \<noteq> []" and dg: "list_all is_digit ds"
      and s: "s = CHR ''t'' # ds \<or> s = CHR ''t'' # ds @ [CHR 0x0A]"
    using assms unfolding is_time_marker_iff by blast
  let ?w = "CHR ''t'' # ds"
  have digits: "\<And>x. x \<in> set ds \<Longrightarrow> is_digit x"
    using dg by (simp add: list_all_iff)
  have t: "\<not> is_space (CHR ''t'')" "action_class (CHR ''t'')"
    by (simp_all add: is_space_def action_class_def)
  have l: "\<not> is_space (last ?w)"
    using ne digits [of "last ds"] by (simp add: digit_not_space)
  have w: "strip ?w = ?w"
    using t(1) l by (intro strip_id) simp_all
  have "strip (?w @ [CHR 0x0A]) = ?w"
    using t(1) l by (intro strip_final_newline) simp_all
  with w s have sw: "strip s = ?w" by auto
  have tm: "is_time_marker ?w"
    unfolding is_time_marker_iff using ne dg by blast
  show ?thesis
  proof (cases "dropWhile action_class ds")
    case Nil
    then have "takeWhile action_class ds = ds"
      by (metis append_Nil2 takeWhile_dropWhile_id)
    then have "action_run ?w = Some ?w" "dropWhile action_class ?w = []"
      using t(2) Nil by (simp_all add: action_run_def)
    then show ?thesis
      using w tm by (simp add: extract_via_tail sw parse_tail_Nil re_first_def strip_if_def keep_if_def)
  next
    case (Cons x r)
    then have "x \<in> set ds"
      by (metis list.set_intros(1) set_dropWhileD)
    moreover have "\<not> action_class x"
      using Cons hd_dropWhile [of action_class ds] by auto
    ultimately have "parse_tail a (x # r) = []" for a
      using digits by (simp add: parse_tail_digit)
    then show ?thesis
      using t(2) Cons by (simp add: extract_via_tail sw re_first_def)
  qed
qed

lemma grp_hit:
  assumes "body \<noteq> []" and "cls \<notin> set body"
  shows "grp opn cls (opn # body @ cls # r) = Some (Some body, r)"
proof -
  have all: "\<And>x. x \<in> set body \<Longrightarrow> x \<noteq> cls"
    using assms(2) by auto
  have tw: "takeWhile (\<lambda>c. c \<noteq> cls) (body @ cls # r) = body"
    using all by (simp add: takeWhile_tail)
  have dw: "dropWhile (\<lambda>c. c \<noteq> cls) (body @ cls # r) = cls # r"
    using all by (simp add: dropWhile_append3)
  show ?thesis
    using assms(1) by (simp add: grp_def tw dw)
qed

lemma strip_empty_iff: "strip A = [] \<longleftrightarrow> dropWhile is_space A = []"
proof
  assume e: "dropWhile is_space A = []"
  show "strip A = []" by (simp only: strip_def e) simp
next
  assume e: "strip A = []"
  show "dropWhile is_space A = []"
  proof (rule ccontr)
    assume n: "dropWhile is_space A \<noteq> []"
    then have "\<not> is_space (hd (dropWhile is_space A))"
      by (rule hd_dropWhile)
    then have "strip (dropWhile is_space A) \<noteq> []"
      using n by (intro strip_nonempty)
    with e show False by (simp add: strip_dropWhile)
  qed
qed

lemma extract_shape:
  assumes A: "list_all (\<lambda>c. c \<notin> set ''()<>$1'') A"
    and S: "list_all (\<lambda>c. c \<notin> set ''()<>$'') S" "S \<noteq> []"
    and C: "list_all (\<lambda>c. c \<notin> set ''()<>$'') C" "C \<noteq> []"
    and Ch: "list_all (\<lambda>c. c \<notin> set ''()<>$'') Ch" "Ch \<noteq> []"
  shows "extract_features_from_action (A @ ''('' @ S @ '')<'' @ C @ ''>$'' @ Ch @ ''$'') =
           ((if strip A \<noteq> [] \<and> \<not> is_time_marker (strip A) then Some (strip A) else None),
            keep_if (Some (strip S)), keep_if (Some (strip C)), keep_if (Some (lower (strip Ch))))"
proof -
  let ?A = "dropWhile is_space A"
  let ?r3 = "CHR ''$'' # Ch @ [CHR ''$'']"
  let ?r2 = "CHR ''<'' # C @ CHR ''>'' # ?r3"
  let ?r1 = "CHR ''('' # S @ CHR '')'' # ?r2"
  have ph: "A @ ''('' @ S @ '')<'' @ C @ ''>$'' @ Ch @ ''$'' = A @ ?r1"
    by simp
  have sp: "strip (A @ ?r1) = ?A @ ?r1"
    by (rule strip_prefix) (simp_all add: is_space_def)
  have cls: "\<And>x. x \<in> set ?A \<Longrightarrow> action_class x"
    using A set_dropWhileD [of _ is_space A] by (auto simp add: list_all_iff action_class_def)
  have tw: "takeWhile action_class (?A @ ?r1) = ?A"
    using cls by (simp add: takeWhile_tail action_class_def)
  have dw: "dropWhile action_class (?A @ ?r1) = ?r1"
    using cls by (simp add: dropWhile_append3 action_class_def)
  have g1: "grp CHR ''('' CHR '')'' ?r1 = Some (Some S, ?r2)"
    using S by (intro grp_hit) (auto simp add: list_all_iff)
  have g2: "grp CHR ''<'' CHR ''>'' ?r2 = Some (Some C, ?r3)"
    using C by (intro grp_hit) (auto simp add: list_all_iff)
  have g3: "grp CHR ''$'' CHR ''$'' ?r3 = Some (Some Ch, [])"
    using Ch by (intro grp_hit) (auto simp add: list_all_iff)
  have pt: "parse_tail a ?r1 = [(a, Some S, Some C, Some Ch)]" for a
    by (simp only: parse_tail_def g1 g2 g3 option.case prod.case) (simp add: re_dollar_def)
  have run: "action_run (?A @ ?r1) = (if ?A = [] then None else Some ?A)"
    by (simp only: action_run_def tw)
  have "extract_features_from_action (A @ ?r1) =
           ((if strip A \<noteq> [] \<and> \<not> is_time_marker (strip A) then Some (strip A) else None),
            keep_if (Some (strip S)), keep_if (Some (strip C)), keep_if (Some (lower (strip Ch))))"
    using S(2) C(2) Ch(2)
    by (simp only: extract_via_tail sp dw pt run)
       (simp add: re_first_def strip_if_def strip_dropWhile strip_empty_iff)
  then show ?thesis by (simp only: ph)
qed


section \<open>Claims about the parser\<close>

text \<open>
  Claim C9. \<^verbatim>\<open>extract_features_from_action\<close> returns four times \<^verbatim>\<open>None\<close> on the
  empty string, and on every string that \<^verbatim>\<open>^t\d+$\<close> matches: a string of the shape of a
  time marker never gives an action.
\<close>

theorem time_marker_has_no_features:
  "extract_features_from_action [] = (None, None, None, None)
   \<and> (is_time_marker s \<longrightarrow> extract_features_from_action s = (None, None, None, None))"
proof -
  have "extract_features_from_action [] = (None, None, None, None)"
    by code_simp
  then show ?thesis
    by (simp add: extract_time_marker)
qed

theorem time_marker_has_no_features_witness:
  "is_time_marker ''t42'' \<and> extract_features_from_action ''t42'' = (None, None, None, None)"
proof -
  have "is_time_marker ''t42''"
    by code_simp
  then show ?thesis
    using time_marker_has_no_features [of "''t42''"] by simp
qed

text \<open>
  Claim C3. The comment on the action group of the pattern reads ``anything before
  \<^verbatim>\<open>(\<close>, \<^verbatim>\<open><\<close>, \<^verbatim>\<open>$\<close>, or \<^verbatim>\<open>1\<close>'', and the group does stop before a \<^verbatim>\<open>1\<close>. The
  pattern is anchored at its end and nothing behind the group can match the \<^verbatim>\<open>1\<close>, so
  that an input with a \<^verbatim>\<open>1\<close> in its action text is not matched at all: for \<^verbatim>\<open>ab1cd\<close>,
  \<^verbatim>\<open>click1\<close> and \<^verbatim>\<open>click1(home)\<close> the action is \<^verbatim>\<open>None\<close>, as every other field, and
  not the text before the \<^verbatim>\<open>1\<close>.
\<close>

theorem action_with_one_is_lost:
  "extract_features_from_action ''ab1cd'' = (None, None, None, None)
   \<and> extract_features_from_action ''click1'' = (None, None, None, None)
   \<and> extract_features_from_action ''click1(home)'' = (None, None, None, None)"
  by code_simp

text \<open>
  Claim C2, as amended. Let \<open>A\<close>, \<open>S\<close>, \<open>C\<close> and \<open>Ch\<close> be non-empty and free of
  \<^verbatim>\<open>(\<close>, \<^verbatim>\<open>)\<close>, \<^verbatim>\<open><\<close>, \<^verbatim>\<open>>\<close> and \<^verbatim>\<open>$\<close>, each without whitespace at its ends, \<open>A\<close>
  without \<^verbatim>\<open>1\<close> and not of the shape of a time marker. Then
  \<^verbatim>\<open>extract_features_from_action\<close> returns \<open>A\<close>, \<open>S\<close>, \<open>C\<close> and \<open>Ch\<close> in lower case
  for the string \<^verbatim>\<open>A(S)<C>$Ch$\<close>.
\<close>

theorem parser_round_trip:
  assumes "list_all (\<lambda>c. c \<notin> set ''()<>$1'') A"
    and "list_all (\<lambda>c. c \<notin> set ''()<>$'') S"
    and "list_all (\<lambda>c. c \<notin> set ''()<>$'') C"
    and "list_all (\<lambda>c. c \<notin> set ''()<>$'') Ch"
    and "A \<noteq> []" and "S \<noteq> []" and "C \<noteq> []" and "Ch \<noteq> []"
    and "strip A = A" and "strip S = S" and "strip C = C" and "strip Ch = Ch"
    and "\<not> is_time_marker A"
  shows "extract_features_from_action (A @ ''('' @ S @ '')<'' @ C @ ''>$'' @ Ch @ ''$'') =
           (Some A, Some S, Some C, Some (lower Ch))"
  using assms(5-13)
  by (simp only: extract_shape [OF assms(1,2,6,3,7,4,8)]) (simp add: keep_if_def lower_def)

theorem parser_round_trip_witness:
  "extract_features_from_action (''Click'' @ ''('' @ ''Home'' @ '')<'' @ ''Dark'' @ ''>$'' @ ''AbC'' @ ''$'') =
     (Some ''Click'', Some ''Home'', Some ''Dark'', Some (lower ''AbC''))"
proof -
  have 1: "list_all (\<lambda>c. c \<notin> set ''()<>$1'') ''Click''"
      "list_all (\<lambda>c. c \<notin> set ''()<>$'') ''Home''"
      "list_all (\<lambda>c. c \<notin> set ''()<>$'') ''Dark''"
      "list_all (\<lambda>c. c \<notin> set ''()<>$'') ''AbC''"
    by simp_all
  have 2: "strip ''Click'' = ''Click''" "strip ''Home'' = ''Home''"
      "strip ''Dark'' = ''Dark''" "strip ''AbC'' = ''AbC''"
    by code_simp+
  have 3: "\<not> is_time_marker ''Click''"
    by code_simp
  show ?thesis
    by (rule parser_round_trip [OF 1 _ _ _ _ 2 3]) simp_all
qed

text \<open>
  Three strings of the shape of the claim that do not come back: an action of the shape of a
  time marker is dropped, whitespace around an action is removed, and with an empty screen
  the pattern does not match.
\<close>

theorem parser_round_trip_fails:
  "extract_features_from_action (''t5'' @ ''('' @ ''s'' @ '')<'' @ ''c'' @ ''>$'' @ ''x'' @ ''$'') \<noteq>
     (Some ''t5'', Some ''s'', Some ''c'', Some (lower ''x''))
   \<and> extract_features_from_action ('' a '' @ ''('' @ ''s'' @ '')<'' @ ''c'' @ ''>$'' @ ''x'' @ ''$'') \<noteq>
     (Some '' a '', Some ''s'', Some ''c'', Some (lower ''x''))
   \<and> extract_features_from_action (''a'' @ ''('' @ [] @ '')<'' @ ''c'' @ ''>$'' @ ''x'' @ ''$'') \<noteq>
     (Some ''a'', Some [], Some ''c'', Some (lower ''x''))"
  by code_simp

section \<open>Projecting a row\<close>

lemma dict_get_bump:
  "dict_get (bump d k) v 0 = dict_get d v 0 + (if k = Some v then 1 else 0)"
  by (cases k) (simp_all add: bump_def dict_get_def)

lemma foldl_count_features_all:
  "foldl count_features (d1, d2, d3, d4) cells = (e1, e2, e3, e4) \<Longrightarrow>
     dict_get e1 v 0 = dict_get d1 v 0 + occurrences_of fst v cells
   \<and> dict_get e2 v 0 = dict_get d2 v 0 + occurrences_of (fst \<circ> snd) v cells
   \<and> dict_get e3 v 0 = dict_get d3 v 0 + occurrences_of (fst \<circ> snd \<circ> snd) v cells
   \<and> dict_get e4 v 0 = dict_get d4 v 0 + occurrences_of (snd \<circ> snd \<circ> snd) v cells"
proof (induction cells arbitrary: d1 d2 d3 d4)
  case Nil
  then show ?case by (simp add: occurrences_of_def)
next
  case (Cons c cells)
  obtain a sc cf ch where x: "extract_features_from_action c = (a, sc, cf, ch)"
    by (cases "extract_features_from_action c") auto
  have step: "count_features (d1, d2, d3, d4) c = (bump d1 a, bump d2 sc, bump d3 cf, bump d4 ch)"
    by (simp add: count_features_def x)
  from Cons.prems
  have "foldl count_features (bump d1 a, bump d2 sc, bump d3 cf, bump d4 ch) cells = (e1, e2, e3, e4)"
    by (simp add: step)
  from Cons.IH [OF this] show ?case
    by (simp add: dict_get_bump occurrences_of_def x)
qed

lemma foldl_count_features_empty:
  assumes "foldl count_features (Map.empty, Map.empty, Map.empty, Map.empty) cells = (e1, e2, e3, e4)"
  shows "dict_get e1 v 0 = occurrences_of fst v cells"
    and "dict_get e2 v 0 = occurrences_of (fst \<circ> snd) v cells"
    and "dict_get e3 v 0 = occurrences_of (fst \<circ> snd \<circ> snd) v cells"
    and "dict_get e4 v 0 = occurrences_of (snd \<circ> snd \<circ> snd) v cells"
  using foldl_count_features_all [OF assms, of v] by (simp_all add: dict_get_def)

lemma decimal_nonneg_aux:
  "list_all is_digit ds \<Longrightarrow> 0 \<le> acc \<Longrightarrow> 0 \<le> foldl (\<lambda>acc c. 10 * acc + digit_val c) acc ds"
proof (induction ds arbitrary: acc)
  case Nil
  then show ?case by simp
next
  case (Cons d ds)
  then have "0 \<le> digit_val d"
    by (simp add: is_digit_def digit_val_def Let_def)
  with Cons.prems have "0 \<le> 10 * acc + digit_val d" by simp
  with Cons show ?case by simp
qed

lemma decimal_nonneg: "list_all is_digit ds \<Longrightarrow> 0 \<le> decimal ds"
  by (simp add: decimal_def decimal_nonneg_aux)

lemma time_marker_duration:
  assumes "is_time_marker c"
  shows "c = CHR ''t'' # drop 1 c"
    and "strip (drop 1 c) \<noteq> []"
    and "list_all is_digit (strip (drop 1 c))"
    and "drop 1 c = strip (drop 1 c) \<or> drop 1 c = strip (drop 1 c) @ [CHR 0x0A]"
    and "py_int (drop 1 c) = Inr (decimal (strip (drop 1 c)))"
    and "0 \<le> decimal (strip (drop 1 c))"
proof -
  obtain ds where ne: "ds \<noteq> []" and dg: "list_all is_digit ds"
      and c: "c = CHR ''t'' # ds \<or> c = CHR ''t'' # ds @ [CHR 0x0A]"
    using assms unfolding is_time_marker_iff by blast
  have ends: "\<not> is_space (hd ds)" "\<not> is_space (last ds)"
    using ne dg by (simp_all add: list_all_iff digit_not_space)
  have s1: "strip ds = ds"
    using ne ends by (rule strip_id)
  have s2: "strip (ds @ [CHR 0x0A]) = ds"
    using ne ends by (rule strip_final_newline)
  from c have d: "drop 1 c = ds \<or> drop 1 c = ds @ [CHR 0x0A]" by auto
  then have st: "strip (drop 1 c) = ds" using s1 s2 by auto
  show "c = CHR ''t'' # drop 1 c" using c by auto
  show "strip (drop 1 c) \<noteq> []" using st ne by simp
  show "list_all is_digit (strip (drop 1 c))" using st dg by simp
  show "drop 1 c = strip (drop 1 c) \<or> drop 1 c = strip (drop 1 c) @ [CHR 0x0A]"
    using d st by simp
  show "py_int (drop 1 c) = Inr (decimal (strip (drop 1 c)))"
    using st ne dg by (simp add: py_int_def)
  show "0 \<le> decimal (strip (drop 1 c))"
    using st dg by (simp add: decimal_nonneg)
qed

lemma extract_data_from_row_no_time:
  assumes "filter is_time_marker (tokens self row) = []"
  shows "extract_data_from_row self row = Inl IndexError"
proof (cases "is_training_data self = Some True")
  case True
  then show ?thesis
    using assms
    by (cases row; cases "tl row")
       (auto simp add: extract_data_from_row_def tokens_def token_index_def Let_def)
next
  case False
  then show ?thesis
    using assms
    by (cases row) (auto simp add: extract_data_from_row_def tokens_def token_index_def Let_def)
qed

lemma project_facts:
  assumes t: "filter is_time_marker cells \<noteq> []"
  obtains e1 e2 e3 e4 where
    "py_int (drop 1 (last (filter is_time_marker cells))) =
       Inr (decimal (strip (drop 1 (last (filter is_time_marker cells)))))"
    and "foldl count_features (Map.empty, Map.empty, Map.empty, Map.empty) cells = (e1, e2, e3, e4)"
    and "\<And>v. dict_get e1 v 0 = occurrences_of fst v cells"
    and "\<And>v. dict_get e2 v 0 = occurrences_of (fst \<circ> snd) v cells"
    and "\<And>v. dict_get e3 v 0 = occurrences_of (fst \<circ> snd \<circ> snd) v cells"
    and "\<And>v. dict_get e4 v 0 = occurrences_of (snd \<circ> snd \<circ> snd) v cells"
proof -
  have "last (filter is_time_marker cells) \<in> set (filter is_time_marker cells)"
    using t by (rule last_in_set)
  then have tm: "is_time_marker (last (filter is_time_marker cells))"
    by simp
  obtain e1 e2 e3 e4
    where f: "foldl count_features (Map.empty, Map.empty, Map.empty, Map.empty) cells = (e1, e2, e3, e4)"
    by (cases "foldl count_features (Map.empty, Map.empty, Map.empty, Map.empty) cells") auto
  show thesis
    using that [OF time_marker_duration(5) [OF tm] f] foldl_count_features_empty [OF f] by simp
qed

lemma extract_data_from_row_time:
  assumes "filter is_time_marker (tokens self row) \<noteq> []"
  shows "extract_data_from_row self row =
           Inr (projection self (take (token_index self) row) (tokens self row))"
proof (cases "is_training_data self = Some True")
  case True
  with assms obtain user rest where r1: "row = user # rest"
    by (cases row) (auto simp add: tokens_def token_index_def)
  with assms True obtain navigator cells where "rest = navigator # cells"
    by (cases rest) (auto simp add: tokens_def token_index_def)
  with r1 have row: "row = user # navigator # cells"
    by simp
  have c: "tokens self (user # navigator # cells) = cells"
      "take (token_index self) (user # navigator # cells) = [user, navigator]"
    using True by (simp_all add: tokens_def token_index_def)
  have t: "filter is_time_marker cells \<noteq> []"
    using assms c row by simp
  obtain e1 e2 e3 e4 where
    py: "py_int (drop 1 (last (filter is_time_marker cells))) =
       Inr (decimal (strip (drop 1 (last (filter is_time_marker cells)))))"
    and f: "foldl count_features (Map.empty, Map.empty, Map.empty, Map.empty) cells = (e1, e2, e3, e4)"
    and cnt: "\<And>v. dict_get e1 v 0 = occurrences_of fst v cells"
      "\<And>v. dict_get e2 v 0 = occurrences_of (fst \<circ> snd) v cells"
      "\<And>v. dict_get e3 v 0 = occurrences_of (fst \<circ> snd \<circ> snd) v cells"
      "\<And>v. dict_get e4 v 0 = occurrences_of (snd \<circ> snd \<circ> snd) v cells"
    by (rule project_facts [OF t]) blast
  show ?thesis
    using True t py f
    by (simp add: row c extract_data_from_row_def Let_def cnt projection_def py_truediv_def)
next
  case False
  with assms obtain navigator cells where row: "row = navigator # cells"
    by (cases row) (auto simp add: tokens_def token_index_def)
  have c: "tokens self (navigator # cells) = cells"
      "take (token_index self) (navigator # cells) = [navigator]"
    using False by (simp_all add: tokens_def token_index_def)
  have t: "filter is_time_marker cells \<noteq> []"
    using assms c row by simp
  obtain e1 e2 e3 e4 where
    py: "py_int (drop 1 (last (filter is_time_marker cells))) =
       Inr (decimal (strip (drop 1 (last (filter is_time_marker cells)))))"
    and f: "foldl count_features (Map.empty, Map.empty, Map.empty, Map.empty) cells = (e1, e2, e3, e4)"
    and cnt: "\<And>v. dict_get e1 v 0 = occurrences_of fst v cells"
      "\<And>v. dict_get e2 v 0 = occurrences_of (fst \<circ> snd) v cells"
      "\<And>v. dict_get e3 v 0 = occurrences_of (fst \<circ> snd \<circ> snd) v cells"
      "\<And>v. dict_get e4 v 0 = occurrences_of (snd \<circ> snd \<circ> snd) v cells"
    by (rule project_facts [OF t]) blast
  show ?thesis
    using False t py f
    by (simp add: row c extract_data_from_row_def Let_def cnt projection_def py_truediv_def)
qed

lemma projection_columns:
  assumes "length leading = token_index self"
  shows "total_actions_of self (projection self leading cells) =
           PInt (int (length (filter (\<lambda>c. \<not> is_time_marker c) cells)))"
    and "session_duration_of self (projection self leading cells) =
           PStr (drop 1 (last (filter is_time_marker cells)))"
    and "avg_speed_of self (projection self leading cells) =
           (if 0 < decimal (strip (drop 1 (last (filter is_time_marker cells))))
            then PFloat (of_int (int (length (filter (\<lambda>c. \<not> is_time_marker c) cells)))
                         / of_int (decimal (strip (drop 1 (last (filter is_time_marker cells))))))
            else PInt 0)"
  using assms [symmetric]
  by (simp_all add: total_actions_of_def session_duration_of_def avg_speed_of_def
      projection_def Let_def nth_append)

lemma leading_length:
  assumes "filter is_time_marker (tokens self row) \<noteq> []"
  shows "length (take (token_index self) row) = token_index self"
proof -
  have "tokens self row \<noteq> []" using assms by auto
  then show ?thesis by (simp add: tokens_def)
qed

lemma row_columns:
  assumes "filter is_time_marker (tokens self row) \<noteq> []"
  obtains r where "extract_data_from_row self row = Inr r"
    and "total_actions_of self r =
           PInt (int (length (filter (\<lambda>c. \<not> is_time_marker c) (tokens self row))))"
    and "session_duration_of self r = PStr (drop 1 (last (filter is_time_marker (tokens self row))))"
    and "avg_speed_of self r =
           (if 0 < decimal (strip (drop 1 (last (filter is_time_marker (tokens self row)))))
            then PFloat (of_int (int (length (filter (\<lambda>c. \<not> is_time_marker c) (tokens self row))))
                         / of_int (decimal (strip (drop 1 (last (filter is_time_marker (tokens self row)))))))
            else PInt 0)"
  using extract_data_from_row_time [OF assms] projection_columns [OF leading_length [OF assms]]
  by blast

lemma last_time_marker:
  assumes "filter is_time_marker cells \<noteq> []"
  shows "is_time_marker (last (filter is_time_marker cells))"
proof -
  have "last (filter is_time_marker cells) \<in> set (filter is_time_marker cells)"
    using assms by (rule last_in_set)
  then show ?thesis by simp
qed

text \<open>
  Claim C1. The comments of \<^verbatim>\<open>extract_data_from_row\<close> call the time markers the cells
  ``of the form t-number'', and \<^verbatim>\<open>^t\d+$\<close> is written to match the whole cell. Its
  \<^verbatim>\<open>$\<close> lets one final newline pass, so that the cell \<^verbatim>\<open>t5\<close> followed by a newline is
  taken for a time marker. In the test row with the navigator \<^verbatim>\<open>chrome\<close> and the tokens
  \<^verbatim>\<open>click\<close> and that cell, no token has the shape \<^verbatim>\<open>t<digits>\<close>, and yet no error is
  raised: the row is projected, with \<^verbatim>\<open>5\<close> and the newline for its \<^verbatim>\<open>session_duration\<close>.
\<close>

theorem newline_marker_is_taken_for_duration:
  "filter spec_time_shaped [''click'', ''t5'' @ [CHR 0x0A]] = []
   \<and> extract_data_from_row (init ''train.csv'') [''chrome'', ''click'', ''t5'' @ [CHR 0x0A]] =
       Inr [PStr ''chrome'', PInt 1, PStr (''5'' @ [CHR 0x0A]), PFloat (1 / 5)]"
  by code_simp

text \<open>
  What the code does, in terms of its own test. A row without a token that
  \<^verbatim>\<open>^t\d+$\<close> matches makes \<^verbatim>\<open>extract_data_from_row\<close> raise \<^verbatim>\<open>IndexError\<close>
  (at \<^verbatim>\<open>times[-1]\<close>, or before it when the row has no token at all), and no row is
  returned. A row with such a token is projected, and its \<^verbatim>\<open>session_duration\<close> is the
  last of these tokens without its \<^verbatim>\<open>t\<close>: its digits, followed by the newline when the
  token has one.
\<close>

theorem missing_duration_is_an_error:
  fixes self :: CSVDataProcessor and row :: "string list"
  defines "markers \<equiv> filter is_time_marker (tokens self row)"
  shows "(markers = [] \<longrightarrow> extract_data_from_row self row = Inl IndexError)
       \<and> (markers \<noteq> [] \<longrightarrow>
            (\<exists>r. extract_data_from_row self row = Inr r
                \<and> session_duration_of self r = PStr (drop 1 (last markers))
                \<and> last markers = CHR ''t'' # drop 1 (last markers)
                \<and> strip (drop 1 (last markers)) \<noteq> []
                \<and> list_all is_digit (strip (drop 1 (last markers)))
                \<and> (drop 1 (last markers) = strip (drop 1 (last markers))
                    \<or> drop 1 (last markers) = strip (drop 1 (last markers)) @ [CHR 0x0A])))"
proof (cases "markers = []")
  case True
  then show ?thesis
    unfolding markers_def by (simp add: extract_data_from_row_no_time)
next
  case False
  then have t: "filter is_time_marker (tokens self row) \<noteq> []"
    by (simp add: markers_def)
  obtain r where r: "extract_data_from_row self row = Inr r"
      "session_duration_of self r = PStr (drop 1 (last markers))"
    using row_columns [OF t] unfolding markers_def by blast
  have tm: "is_time_marker (last markers)"
    unfolding markers_def using t by (rule last_time_marker)
  note d = time_marker_duration [OF tm]
  show ?thesis
    using False r d(2,3,4) d(1) [symmetric] by simp
qed

text \<open>
  A test row without a time marker, and one with two of them.
\<close>

theorem missing_duration_is_an_error_witness:
  "filter is_time_marker (tokens (init ''train.csv'') [''chrome'', ''click(home)'']) = []
   \<and> extract_data_from_row (init ''train.csv'') [''chrome'', ''click(home)''] = Inl IndexError
   \<and> filter is_time_marker (tokens (init ''train.csv'') [''chrome'', ''t5'', ''click(home)'', ''t12''])
       = [''t5'', ''t12'']
   \<and> (\<exists>r. extract_data_from_row (init ''train.csv'') [''chrome'', ''t5'', ''click(home)'', ''t12''] = Inr r
          \<and> session_duration_of (init ''train.csv'') r = PStr ''12'')"
proof -
  have a: "filter is_time_marker (tokens (init ''train.csv'') [''chrome'', ''click(home)'']) = []"
    by code_simp
  have b: "filter is_time_marker (tokens (init ''train.csv'') [''chrome'', ''t5'', ''click(home)'', ''t12''])
       = [''t5'', ''t12'']"
    by code_simp
  show ?thesis
    using missing_duration_is_an_error [of "init ''train.csv''" "[''chrome'', ''click(home)'']"]
      missing_duration_is_an_error [of "init ''train.csv''" "[''chrome'', ''t5'', ''click(home)'', ''t12'']"]
    by (auto simp add: a b)
qed

lemma row_result_has_marker:
  assumes "extract_data_from_row self row = Inr r"
  shows "filter is_time_marker (tokens self row) \<noteq> []"
  using assms extract_data_from_row_no_time [of self row] by auto

lemma example_processor_eq:
  "example_processor =
     \<lparr>train_data_csv_path = ''train.csv'',
      data = Some [[''u1'', ''chrome'', ''t5'', ''click(home)'', ''t12'']],
      is_training_data = Some True,
      headers = Some [''user'', ''navigator'', ''total_actions'', ''session_duration'', ''avg_speed'',
                      action_label ''click'', screen_label ''home''],
      possible_actions_set = [''click''], possible_screens_set = [''home''],
      possible_configurations_set = [], possible_chaines_set = []\<rparr>"
  by code_simp

text \<open>
  Claim C5. \<^verbatim>\<open>total_actions\<close> leaves out the cells that \<^verbatim>\<open>^t\d+$\<close> matches, which
  the comment calls the cells ``with the form t-number''; the final newline that \<^verbatim>\<open>$\<close>
  lets pass makes it leave out one cell more. In the training row \<^verbatim>\<open>u1, chrome\<close> with the
  tokens \<^verbatim>\<open>t5\<close> followed by a newline and \<^verbatim>\<open>t3\<close>, one token does not have the shape
  \<^verbatim>\<open>t<digits>\<close>, and \<^verbatim>\<open>total_actions\<close> is 0.
\<close>

theorem total_actions_skips_newline_marker:
  "int (length (filter (\<lambda>c. \<not> spec_time_shaped c) [''t5'' @ [CHR 0x0A], ''t3''])) = 1
   \<and> extract_data_from_row example_processor [''u1'', ''chrome'', ''t5'' @ [CHR 0x0A], ''t3''] =
       Inr [PStr ''u1'', PStr ''chrome'', PInt 0, PStr ''3'', PFloat 0, PInt 0, PInt 0]"
  by code_simp

text \<open>
  What the code does, in terms of its own test. Whenever a row is projected,
  \<^verbatim>\<open>total_actions\<close> is the number of its tokens that \<^verbatim>\<open>^t\d+$\<close> does not match; the
  parse of a token plays no part in it. The training row
  \<^verbatim>\<open>u1, chrome, t5, click(home), t12\<close> gives 1 action, the duration \<^verbatim>\<open>12\<close>, the speed
  1/12, the count 1 in the column of the action \<^verbatim>\<open>click\<close> and in the column of the screen
  \<^verbatim>\<open>home\<close>, and 0 in every other column, whatever the vocabulary is.
\<close>

theorem total_actions_counts_cells:
  "(\<forall>r. extract_data_from_row self row = Inr r \<longrightarrow>
       total_actions_of self r =
         PInt (int (length (filter (\<lambda>c. \<not> is_time_marker c) (tokens self row)))))
   \<and> (is_training_data self = Some True \<longrightarrow>
       extract_data_from_row self [''u1'', ''chrome'', ''t5'', ''click(home)'', ''t12''] =
         Inr ([PStr ''u1'', PStr ''chrome'', PInt 1, PStr ''12'', PFloat (1 / 12)]
              @ map (\<lambda>v. PInt (if v = ''click'' then 1 else 0)) (possible_actions_set self)
              @ map (\<lambda>v. PInt (if v = ''home'' then 1 else 0)) (possible_screens_set self)
              @ map (\<lambda>v. PInt 0) (possible_configurations_set self)
              @ map (\<lambda>v. PInt 0) (possible_chaines_set self)))"
proof (intro conjI allI impI)
  fix r
  assume r: "extract_data_from_row self row = Inr r"
  then have "filter is_time_marker (tokens self row) \<noteq> []"
    by (rule row_result_has_marker)
  from row_columns [OF this] r
  show "total_actions_of self r =
         PInt (int (length (filter (\<lambda>c. \<not> is_time_marker c) (tokens self row))))"
    by (metis sum.inject(2))
next
  assume tr: "is_training_data self = Some True"
  let ?row = "[''u1'', ''chrome'', ''t5'', ''click(home)'', ''t12'']"
  have tm: "is_time_marker ''t5''" "\<not> is_time_marker ''click(home)''" "is_time_marker ''t12''"
    by code_simp+
  have ex: "extract_features_from_action ''t5'' = (None, None, None, None)"
      "extract_features_from_action ''click(home)'' = (Some ''click'', Some ''home'', None, None)"
      "extract_features_from_action ''t12'' = (None, None, None, None)"
    by code_simp+
  have dur: "decimal (strip ''12'') = 12"
    by code_simp
  have tok: "tokens self ?row = [''t5'', ''click(home)'', ''t12'']"
      "take (token_index self) ?row = [''u1'', ''chrome'']"
    using tr by (simp_all add: tokens_def token_index_def)
  have "filter is_time_marker (tokens self ?row) \<noteq> []"
    by (simp add: tok tm)
  from extract_data_from_row_time [OF this]
  show "extract_data_from_row self ?row =
         Inr ([PStr ''u1'', PStr ''chrome'', PInt 1, PStr ''12'', PFloat (1 / 12)]
              @ map (\<lambda>v. PInt (if v = ''click'' then 1 else 0)) (possible_actions_set self)
              @ map (\<lambda>v. PInt (if v = ''home'' then 1 else 0)) (possible_screens_set self)
              @ map (\<lambda>v. PInt 0) (possible_configurations_set self)
              @ map (\<lambda>v. PInt 0) (possible_chaines_set self))"
    by (simp add: tok tm ex dur projection_def occurrences_of_def Let_def cong: if_cong)
qed

text \<open>
  With the vocabulary of the example; the token \<^verbatim>\<open>ab1cd\<close> parses to nothing and is counted.
\<close>

theorem total_actions_counts_cells_witness:
  "is_training_data example_processor = Some True
   \<and> extract_data_from_row example_processor [''u1'', ''chrome'', ''t5'', ''click(home)'', ''t12''] =
       Inr [PStr ''u1'', PStr ''chrome'', PInt 1, PStr ''12'', PFloat (1 / 12), PInt 1, PInt 1]
   \<and> extract_features_from_action ''ab1cd'' = (None, None, None, None)
   \<and> extract_data_from_row example_processor [''u2'', ''chrome'', ''ab1cd'', ''t3''] =
       Inr [PStr ''u2'', PStr ''chrome'', PInt 1, PStr ''3'', PFloat (1 / 3), PInt 0, PInt 0]
   \<and> total_actions_of example_processor
         [PStr ''u2'', PStr ''chrome'', PInt 1, PStr ''3'', PFloat (1 / 3), PInt 0, PInt 0] = PInt 1"
proof -
  have a: "extract_features_from_action ''ab1cd'' = (None, None, None, None)"
    by code_simp
  have b: "extract_data_from_row example_processor [''u2'', ''chrome'', ''ab1cd'', ''t3''] =
       Inr [PStr ''u2'', PStr ''chrome'', PInt 1, PStr ''3'', PFloat (1 / 3), PInt 0, PInt 0]"
    by code_simp
  have c: "int (length (filter (\<lambda>c. \<not> is_time_marker c)
             (tokens example_processor [''u2'', ''chrome'', ''ab1cd'', ''t3'']))) = 1"
    by code_simp
  have d: "is_training_data example_processor = Some True"
      "possible_actions_set example_processor = [''click'']"
      "possible_screens_set example_processor = [''home'']"
      "possible_configurations_set example_processor = []"
      "possible_chaines_set example_processor = []"
    by (simp_all add: example_processor_eq)
  show ?thesis
    using total_actions_counts_cells [of example_processor "[''u2'', ''chrome'', ''ab1cd'', ''t3'']"]
    by (simp add: a b c d)
qed

text \<open>
  Claim C6. \<^verbatim>\<open>extract_data_from_row\<close> never raises \<^verbatim>\<open>ZeroDivisionError\<close>. For a row
  with a time marker, \<^verbatim>\<open>int(session_duration)\<close> is a number \<open>d \<ge> 0\<close>; \<^verbatim>\<open>avg_speed\<close> is
  the quotient of \<^verbatim>\<open>total_actions\<close> by \<open>d\<close> when \<open>d > 0\<close>, and the integer 0 when
  \<open>d = 0\<close>.
\<close>

theorem avg_speed_guards_zero_duration:
  fixes self :: CSVDataProcessor and row :: "string list"
  defines "markers \<equiv> filter is_time_marker (tokens self row)"
    and "count \<equiv> int (length (filter (\<lambda>c. \<not> is_time_marker c) (tokens self row)))"
  shows "extract_data_from_row self row \<noteq> Inl ZeroDivisionError
       \<and> (markers \<noteq> [] \<longrightarrow>
            (\<exists>r d. extract_data_from_row self row = Inr r
                  \<and> total_actions_of self r = PInt count
                  \<and> session_duration_of self r = PStr (drop 1 (last markers))
                  \<and> py_int (drop 1 (last markers)) = Inr d \<and> 0 \<le> d
                  \<and> (0 < d \<longrightarrow> avg_speed_of self r = PFloat (of_int count / of_int d))
                  \<and> (d = 0 \<longrightarrow> avg_speed_of self r = PInt 0)))"
proof (cases "markers = []")
  case True
  then show ?thesis
    unfolding markers_def by (simp add: extract_data_from_row_no_time)
next
  case False
  then have t: "filter is_time_marker (tokens self row) \<noteq> []"
    by (simp add: markers_def)
  let ?d = "decimal (strip (drop 1 (last markers)))"
  obtain r where r: "extract_data_from_row self row = Inr r"
      "total_actions_of self r = PInt count"
      "session_duration_of self r = PStr (drop 1 (last markers))"
      "avg_speed_of self r = (if 0 < ?d then PFloat (of_int count / of_int ?d) else PInt 0)"
    using row_columns [OF t] unfolding markers_def count_def by blast
  have tm: "is_time_marker (last markers)"
    unfolding markers_def using t by (rule last_time_marker)
  have "py_int (drop 1 (last markers)) = Inr ?d" "0 \<le> ?d"
    using time_marker_duration(5,6) [OF tm] by simp_all
  with r False show ?thesis
    by auto
qed

text \<open>
  A row of duration 12 and a row of duration 0.
\<close>

theorem avg_speed_guards_zero_duration_witness:
  "filter is_time_marker (tokens example_processor [''u1'', ''chrome'', ''t5'', ''click(home)'', ''t12''])
     = [''t5'', ''t12'']
   \<and> py_int ''12'' = Inr 12
   \<and> extract_data_from_row example_processor [''u1'', ''chrome'', ''t5'', ''click(home)'', ''t12''] =
       Inr [PStr ''u1'', PStr ''chrome'', PInt 1, PStr ''12'', PFloat (1 / 12), PInt 1, PInt 1]
   \<and> avg_speed_of example_processor
         [PStr ''u1'', PStr ''chrome'', PInt 1, PStr ''12'', PFloat (1 / 12), PInt 1, PInt 1] = PFloat (1 / 12)
   \<and> filter is_time_marker (tokens example_processor [''u2'', ''chrome'', ''click(home)'', ''t0''])
     = [''t0'']
   \<and> py_int ''0'' = Inr 0
   \<and> extract_data_from_row example_processor [''u2'', ''chrome'', ''click(home)'', ''t0''] =
       Inr [PStr ''u2'', PStr ''chrome'', PInt 1, PStr ''0'', PInt 0, PInt 1, PInt 1]
   \<and> avg_speed_of example_processor
         [PStr ''u2'', PStr ''chrome'', PInt 1, PStr ''0'', PInt 0, PInt 1, PInt 1] = PInt 0"
proof -
  let ?r1 = "[''u1'', ''chrome'', ''t5'', ''click(home)'', ''t12'']"
  let ?r2 = "[''u2'', ''chrome'', ''click(home)'', ''t0'']"
  have m: "filter is_time_marker (tokens example_processor ?r1) = [''t5'', ''t12'']"
      "filter is_time_marker (tokens example_processor ?r2) = [''t0'']"
    by code_simp+
  have n: "int (length (filter (\<lambda>c. \<not> is_time_marker c) (tokens example_processor ?r1))) = 1"
      "int (length (filter (\<lambda>c. \<not> is_time_marker c) (tokens example_processor ?r2))) = 1"
    by code_simp+
  have p: "py_int ''12'' = Inr 12" "py_int ''0'' = Inr 0"
    by code_simp+
  have e: "extract_data_from_row example_processor ?r1 =
       Inr [PStr ''u1'', PStr ''chrome'', PInt 1, PStr ''12'', PFloat (1 / 12), PInt 1, PInt 1]"
      "extract_data_from_row example_processor ?r2 =
       Inr [PStr ''u2'', PStr ''chrome'', PInt 1, PStr ''0'', PInt 0, PInt 1, PInt 1]"
    by code_simp+
  show ?thesis
    using avg_speed_guards_zero_duration [of example_processor ?r1]
      avg_speed_guards_zero_duration [of example_processor ?r2]
    by (simp add: m n p e)
qed

section \<open>Values that the vocabulary does not have\<close>

lemma occurrences_of_absent:
  "(\<And>c. c \<in> set cells \<Longrightarrow> field (extract_features_from_action c) \<noteq> Some v) \<Longrightarrow>
     occurrences_of field v cells = 0"
  by (simp add: occurrences_of_def)

lemma process_data_vocabulary:
  "possible_actions_set (fst (process_data self dat tr)) = possible_actions_set self"
  "possible_screens_set (fst (process_data self dat tr)) = possible_screens_set self"
  "possible_configurations_set (fst (process_data self dat tr)) = possible_configurations_set self"
  "possible_chaines_set (fst (process_data self dat tr)) = possible_chaines_set self"
  "headers (fst (process_data self dat tr)) = headers self"
  by (simp_all add: process_data_def Let_def split: option.split sum.split)

text \<open>
  Claim C8. In test mode a row with a time marker is projected without error, whatever
  values its tokens parse to. The projected row has 4 cells and one for every member of the
  vocabulary, no more; the cell of a member is the number of tokens that give this member,
  which is 0 for a member that no token gives, so that values outside the vocabulary are
  counted nowhere. \<^verbatim>\<open>process_data\<close> on test rows leaves the four sets and the headers
  of the object as they are.
\<close>

theorem unknown_categories_count_nothing:
  assumes "is_training_data self \<noteq> Some True" and "filter is_time_marker cells \<noteq> []"
  shows "(\<exists>r. extract_data_from_row self (navigator # cells) = Inr r
            \<and> length r = 4 + length (possible_actions_set self) + length (possible_screens_set self)
                         + length (possible_configurations_set self) + length (possible_chaines_set self)
            \<and> drop 4 r =
                map (\<lambda>v. PInt (occurrences_of fst v cells)) (possible_actions_set self)
                @ map (\<lambda>v. PInt (occurrences_of (fst \<circ> snd) v cells)) (possible_screens_set self)
                @ map (\<lambda>v. PInt (occurrences_of (fst \<circ> snd \<circ> snd) v cells))
                    (possible_configurations_set self)
                @ map (\<lambda>v. PInt (occurrences_of (snd \<circ> snd \<circ> snd) v cells))
                    (possible_chaines_set self))
       \<and> (\<forall>field v. (\<forall>c\<in>set cells. field (extract_features_from_action c) \<noteq> Some v) \<longrightarrow>
             occurrences_of field v cells = 0)
       \<and> possible_actions_set (fst (process_data self (Some rows) False)) = possible_actions_set self
       \<and> possible_screens_set (fst (process_data self (Some rows) False)) = possible_screens_set self
       \<and> possible_configurations_set (fst (process_data self (Some rows) False)) =
           possible_configurations_set self
       \<and> possible_chaines_set (fst (process_data self (Some rows) False)) = possible_chaines_set self
       \<and> headers (fst (process_data self (Some rows) False)) = headers self"
proof -
  have tok: "tokens self (navigator # cells) = cells"
      "take (token_index self) (navigator # cells) = [navigator]"
    using assms(1) by (simp_all add: tokens_def token_index_def)
  have "filter is_time_marker (tokens self (navigator # cells)) \<noteq> []"
    using assms(2) by (simp add: tok)
  from extract_data_from_row_time [OF this]
  have "extract_data_from_row self (navigator # cells) = Inr (projection self [navigator] cells)"
    by (simp add: tok)
  moreover have "length (projection self [navigator] cells) =
      4 + length (possible_actions_set self) + length (possible_screens_set self)
        + length (possible_configurations_set self) + length (possible_chaines_set self)"
    by (simp add: projection_def Let_def)
  moreover have "drop 4 (projection self [navigator] cells) =
                map (\<lambda>v. PInt (occurrences_of fst v cells)) (possible_actions_set self)
                @ map (\<lambda>v. PInt (occurrences_of (fst \<circ> snd) v cells)) (possible_screens_set self)
                @ map (\<lambda>v. PInt (occurrences_of (fst \<circ> snd \<circ> snd) v cells))
                    (possible_configurations_set self)
                @ map (\<lambda>v. PInt (occurrences_of (snd \<circ> snd \<circ> snd) v cells))
                    (possible_chaines_set self)"
    by (simp add: projection_def Let_def)
  ultimately show ?thesis
    by (simp add: process_data_vocabulary occurrences_of_absent)
qed

text \<open>
  The test row of the example: its action \<^verbatim>\<open>scroll\<close> and its screen \<^verbatim>\<open>menu\<close> are not in
  the vocabulary.
\<close>

theorem unknown_categories_count_nothing_witness:
  "is_training_data example_test_processor \<noteq> Some True
   \<and> filter is_time_marker [''scroll(menu)'', ''t7''] = [''t7'']
   \<and> extract_features_from_action ''scroll(menu)'' = (Some ''scroll'', Some ''menu'', None, None)
   \<and> possible_actions_set example_test_processor = [''click'']
   \<and> possible_screens_set example_test_processor = [''home'']
   \<and> (\<exists>r. extract_data_from_row example_test_processor [''firefox'', ''scroll(menu)'', ''t7''] = Inr r
          \<and> length r = 6 \<and> drop 4 r = [PInt 0, PInt 0])"
proof -
  have v: "is_training_data example_test_processor = Some False"
      "possible_actions_set example_test_processor = [''click'']"
      "possible_screens_set example_test_processor = [''home'']"
      "possible_configurations_set example_test_processor = []"
      "possible_chaines_set example_test_processor = []"
    by (simp_all add: example_test_processor_def example_processor_eq)
  have m: "filter is_time_marker [''scroll(menu)'', ''t7''] = [''t7'']"
    by code_simp
  have x: "extract_features_from_action ''scroll(menu)'' = (Some ''scroll'', Some ''menu'', None, None)"
    by code_simp
  have o: "occurrences_of fst ''click'' [''scroll(menu)'', ''t7''] = 0"
      "occurrences_of (fst \<circ> snd) ''home'' [''scroll(menu)'', ''t7''] = 0"
    by code_simp+
  have h1: "is_training_data example_test_processor \<noteq> Some True"
    by (simp add: v)
  have h2: "filter is_time_marker [''scroll(menu)'', ''t7''] \<noteq> []"
    by (simp only: m) simp
  from unknown_categories_count_nothing [OF h1 h2, of "''firefox''" "[]"]
  obtain r where r: "extract_data_from_row example_test_processor [''firefox'', ''scroll(menu)'', ''t7''] = Inr r"
    and l: "length r = 4 + length (possible_actions_set example_test_processor)
                     + length (possible_screens_set example_test_processor)
                     + length (possible_configurations_set example_test_processor)
                     + length (possible_chaines_set example_test_processor)"
    and d: "drop 4 r =
                map (\<lambda>v. PInt (occurrences_of fst v [''scroll(menu)'', ''t7'']))
                  (possible_actions_set example_test_processor)
                @ map (\<lambda>v. PInt (occurrences_of (fst \<circ> snd) v [''scroll(menu)'', ''t7'']))
                    (possible_screens_set example_test_processor)
                @ map (\<lambda>v. PInt (occurrences_of (fst \<circ> snd \<circ> snd) v [''scroll(menu)'', ''t7'']))
                    (possible_configurations_set example_test_processor)
                @ map (\<lambda>v. PInt (occurrences_of (snd \<circ> snd \<circ> snd) v [''scroll(menu)'', ''t7'']))
                    (possible_chaines_set example_test_processor)"
    by blast
  have "length r = 6" "drop 4 r = [PInt 0, PInt 0]"
    using l d by (simp_all add: v o)
  with r have "\<exists>r. extract_data_from_row example_test_processor [''firefox'', ''scroll(menu)'', ''t7''] = Inr r
          \<and> length r = 6 \<and> drop 4 r = [PInt 0, PInt 0]"
    by blast
  with h1 m x v(2,3) show ?thesis
    by (simp only: simp_thms)
qed

section \<open>The schema\<close>

lemma add_features_distinct: "vocabulary_distinct s \<Longrightarrow> vocabulary_distinct (add_features s c)"
  by (cases "extract_features_from_action c")
     (simp add: add_features_def Let_def vocabulary_distinct_def distinct_set_add
        split: option.splits)

lemma foldl_add_features_distinct:
  "vocabulary_distinct s \<Longrightarrow> vocabulary_distinct (foldl add_features s cs)"
  by (induction cs arbitrary: s) (simp_all add: add_features_distinct)

lemma rows_add_features_distinct:
  "vocabulary_distinct s \<Longrightarrow>
     vocabulary_distinct (foldl (\<lambda>s row. foldl add_features s (drop i row)) s rows)"
  by (induction rows arbitrary: s) (simp_all add: foldl_add_features_distinct)

lemma create_headers_training:
  assumes "create_headers self = Inr (hs, s')" and "is_training_data self = Some True"
  shows "hs = [''user'', ''navigator'', ''total_actions'', ''session_duration'', ''avg_speed'']
              @ vocabulary_labels s'"
    and "is_training_data s' = Some True"
    and "vocabulary_distinct self \<Longrightarrow> vocabulary_distinct s'"
  using assms
  by (auto simp add: create_headers_def extract_all_possible_features_def Let_def
      vocabulary_labels_def rows_add_features_frame rows_add_features_distinct
      split: option.splits)

lemma create_headers_test:
  assumes "is_training_data self \<noteq> Some True"
  shows "create_headers self =
           Inr ([''navigator'', ''total_actions'', ''session_duration'', ''avg_speed'']
                @ vocabulary_labels self, self)"
  using assms by (simp add: create_headers_def vocabulary_labels_def)

lemma process_data_test_columns:
  assumes "snd (process_data self (Some rows) False) = Inr df" and "headers self = Some hs"
  shows "df_columns df = Some (tl hs)"
  using assms
  by (auto simp add: process_data_def Let_def drop_Suc split: option.splits sum.splits)

text \<open>
  Claim C7. The columns that \<^verbatim>\<open>create_headers\<close> returns in training mode are 5 and one
  for every member of the four sets, and the first one is \<^verbatim>\<open>user\<close>. The columns of the
  test schema are these without the first one, in the same order: both the ones that
  \<^verbatim>\<open>create_headers\<close> returns in test mode on the same vocabulary and the ones that
  \<^verbatim>\<open>process_data\<close> gives to the table of the test rows.
\<close>

theorem schema_columns:
  assumes "create_headers self = Inr (hs, s')" and "is_training_data self = Some True"
    and "vocabulary_distinct self"
  shows "length hs = 5 + card (set (possible_actions_set s')) + card (set (possible_screens_set s'))
                       + card (set (possible_configurations_set s'))
                       + card (set (possible_chaines_set s'))
       \<and> hs = ''user'' # tl hs
       \<and> create_headers (s'\<lparr>is_training_data := Some False\<rparr>) =
           Inr (tl hs, s'\<lparr>is_training_data := Some False\<rparr>)
       \<and> (\<forall>rows df. snd (process_data (s'\<lparr>headers := Some hs\<rparr>) (Some rows) False) = Inr df \<longrightarrow>
             df_columns df = Some (tl hs))"
proof -
  note h = create_headers_training [OF assms(1,2)]
  have d: "vocabulary_distinct s'"
    using h(3) assms(3) by simp
  have len: "length hs = 5 + card (set (possible_actions_set s')) + card (set (possible_screens_set s'))
                       + card (set (possible_configurations_set s'))
                       + card (set (possible_chaines_set s'))"
    using d by (simp add: h(1) vocabulary_labels_def vocabulary_distinct_def distinct_card)
  have tl: "tl hs = [''navigator'', ''total_actions'', ''session_duration'', ''avg_speed'']
              @ vocabulary_labels s'"
    by (simp add: h(1))
  have test: "create_headers (s'\<lparr>is_training_data := Some False\<rparr>) =
           Inr (tl hs, s'\<lparr>is_training_data := Some False\<rparr>)"
    by (simp add: create_headers_test tl vocabulary_labels_def)
  have cols: "df_columns df = Some (tl hs)"
    if "snd (process_data (s'\<lparr>headers := Some hs\<rparr>) (Some rows) False) = Inr df" for rows df
    using that by (rule process_data_test_columns) simp
  show ?thesis
    using len test cols by (simp add: h(1))
qed

text \<open>
  The schema of the example.
\<close>

theorem schema_columns_witness:
  "create_headers (example_processor\<lparr>headers := None\<rparr>) =
     Inr ([''user'', ''navigator'', ''total_actions'', ''session_duration'', ''avg_speed'',
           action_label ''click'', screen_label ''home''], example_processor\<lparr>headers := None\<rparr>)
   \<and> is_training_data (example_processor\<lparr>headers := None\<rparr>) = Some True
   \<and> vocabulary_distinct (example_processor\<lparr>headers := None\<rparr>)
   \<and> length [''user'', ''navigator'', ''total_actions'', ''session_duration'', ''avg_speed'',
           action_label ''click'', screen_label ''home''] = 5 + 1 + 1 + 0 + 0
   \<and> create_headers (example_processor\<lparr>headers := None, is_training_data := Some False\<rparr>) =
     Inr ([''navigator'', ''total_actions'', ''session_duration'', ''avg_speed'',
           action_label ''click'', screen_label ''home''],
          example_processor\<lparr>headers := None, is_training_data := Some False\<rparr>)"
proof -
  let ?p = "example_processor\<lparr>headers := None\<rparr>"
  let ?hs = "[''user'', ''navigator'', ''total_actions'', ''session_duration'', ''avg_speed'',
           action_label ''click'', screen_label ''home'']"
  have c: "create_headers ?p = Inr (?hs, ?p)"
    by code_simp
  have t: "is_training_data ?p = Some True"
    by (simp add: example_processor_eq)
  have d: "vocabulary_distinct ?p"
    by (simp add: example_processor_eq vocabulary_distinct_def)
  show ?thesis
    using schema_columns [OF c t d] c t d by simp
qed

end
